theory Spec2Isabelle
  imports Complex_Main "HOL-Library.Word" "HOL-Library.Sublist" "HOL-Library.Log_Nat"
begin

section \<open>Yoosee intercom client: the data model\<close>

text \<open>
  The development embeds the multi-camera client (class \<open>CameraClient\<close> with its fan-out
  handler, the unnamed source file \<open>part_001\<close>), on which the claims are settled, and
  the single-camera script \<open>intercom.js\<close> (names with the suffix \<open>_single\<close>): its OPEN
  command, its pacer and its \<open>'data'\<close> handler.

  Conventions of the embedding.
  \<^item> A Node \<open>Buffer\<close> is a list of bytes; a JavaScript string is a \<open>string\<close>.
  \<^item> \<open>this\<close> is the record \<open>CameraClient\<close>; every method takes the record and returns
    the updated one.
  \<^item> The socket is a record of what the program can observe of it (\<open>destroyed\<close>,
    \<open>writable\<close>), of what it set (\<open>timeoutMs\<close>, \<open>noDelay\<close>, \<open>remote\<close>), and of the data
    handed to \<open>socket.write\<close> (\<open>written\<close>, oldest first). Whether \<open>socket.write\<close> throws is
    decided by the environment flag \<open>writeThrows\<close>. A write does not change the flags of
    the socket; the environment changes them between two handler runs.
  \<^item> Callbacks registered with \<open>setTimeout\<close> and \<open>setImmediate\<close> are the list \<open>timers\<close> of
    the client, oldest first.
  \<^item> \<open>Date.now()\<close> is read at most twice in one call of \<open>processQueue\<close>: the two readings
    are the parameters \<open>t1\<close> (the reading stored in \<open>startTime\<close>) and \<open>t2\<close> (the
    reading compared with \<open>startTime\<close>).
  \<^item> Console output and \<open>logDebug\<close> are left out.
  \<^item> A finite JavaScript number is the rational it denotes. Division and multiplication
    round the exact result to the nearest double (53 significant bits, ties to even,
    gradual underflow, overflow to the infinities); \<open>NaN\<close> and the infinities are values
    of their own. Byte counts, clock readings and the sample rate are integers (exact
    as doubles below \<open>2^53\<close>); the sign of zero is left out.
\<close>

type_synonym byte = "8 word"
type_synonym buffer = "byte list"

datatype error = RangeError | TypeError | WriteError

datatype wire = Text string | Bytes buffer

datatype timer = ProcessQueueTimeout nat | ProcessQueueImmediate | DestroyTimeout nat

record Socket =
  destroyed :: bool
  writable :: bool
  writeThrows :: bool
  timeoutMs :: nat
  noDelay :: bool
  remote :: "(nat \<times> string) option"
  written :: "wire list"

record CameraClient =
  ip :: string
  port :: nat
  sampleRate :: int
  socket :: Socket
  audioQueue :: "buffer list"
  startTime :: int
  totalBytesSent :: nat
  isThrottling :: bool
  isConnected :: bool
  timers :: "timer list"

subsection \<open>Fixed technical configuration\<close>

definition CHUNK_SIZE :: nat where
  "CHUNK_SIZE = 320"

definition FRAME_LEN :: nat where
  "FRAME_LEN = 332"

definition MAX_BUFFER_AHEAD_MS :: int where
  "MAX_BUFFER_AHEAD_MS = 2000"

definition SPEED_MULTIPLIER :: rat where
  "SPEED_MULTIPLIER = 1"

subsection \<open>Buffers and the socket\<close>

definition Buffer_alloc :: "nat \<Rightarrow> byte \<Rightarrow> buffer" where
  "Buffer_alloc n fill = replicate n fill"

text \<open>\<open>buf.writeUInt16LE(v, offset)\<close>: low byte first; a \<open>RangeError\<close> when the value or
  the offset is out of range.\<close>

definition writeUInt16LE :: "nat \<Rightarrow> nat \<Rightarrow> buffer \<Rightarrow> error + buffer" where
  "writeUInt16LE v offset buf =
     (if v < 65536 \<and> offset + 2 \<le> length buf
      then Inr (buf[offset := of_nat (v mod 256), offset + 1 := of_nat (v div 256)])
      else Inl RangeError)"

definition Buffer_concat :: "buffer list \<Rightarrow> buffer" where
  "Buffer_concat bs = concat bs"

definition Buffer_from :: "buffer \<Rightarrow> buffer" where
  "Buffer_from b = b"

text \<open>\<open>buf.slice(start, stop)\<close> for \<open>start \<le> stop\<close>; both ends are clamped to the length.\<close>

definition slice :: "nat \<Rightarrow> nat \<Rightarrow> buffer \<Rightarrow> buffer" where
  "slice start stop buf = take (stop - start) (drop start buf)"

text \<open>\<open>array.shift()\<close>: the first element (\<open>undefined\<close> on an empty array) and the rest.\<close>

definition shift :: "'a list \<Rightarrow> 'a option \<times> 'a list" where
  "shift q = (case q of [] \<Rightarrow> (None, []) | x # r \<Rightarrow> (Some x, r))"

text \<open>\<open>socket.write(d)\<close>: throws when the environment says so; on a destroyed socket the
  data is dropped without an exception; otherwise the data is handed to the socket.\<close>

definition socket_write :: "wire \<Rightarrow> Socket \<Rightarrow> error + Socket" where
  "socket_write d k =
     (if writeThrows k then Inl WriteError
      else if destroyed k then Inr k
      else Inr (k\<lparr>written := written k @ [d]\<rparr>))"

definition socket_destroy :: "Socket \<Rightarrow> Socket" where
  "socket_destroy k = k\<lparr>destroyed := True, writable := False\<rparr>"

definition new_Socket :: Socket where
  "new_Socket = \<lparr>destroyed = False, writable = True, writeThrows = False, timeoutMs = 0,
     noDelay = False, remote = None, written = []\<rparr>"

subsection \<open>JavaScript numbers of the throttle test\<close>

datatype jsnum = NaN | NegInf | Fin rat | PosInf

text \<open>The binary exponent of a positive rational \<open>x\<close>: the \<open>e\<close> with
  \<open>2^e \<le> x < 2^(e+1)\<close>, found from the bit lengths of numerator and denominator.\<close>

definition exponent :: "rat \<Rightarrow> int" where
  "exponent x =
     (let (p, q) = quotient_of x; e0 = bitlen p - bitlen q
      in if 2 powi e0 \<le> x then e0 else e0 - 1)"

text \<open>The nearest integer, a tie going to the even one.\<close>

definition round_half_even :: "rat \<Rightarrow> int" where
  "round_half_even x =
     (let f = \<lfloor>x\<rfloor>; r = x - of_int f
      in if r < 1 / 2 then f else if 1 / 2 < r then f + 1 else if even f then f else f + 1)"

text \<open>The double nearest to an exact result: the spacing of the doubles around \<open>x\<close> is
  \<open>2^(e - 52)\<close> for the exponent \<open>e\<close> of \<open>x\<close>, which is at least \<open>-1022\<close>; a result
  of magnitude \<open>2^1024\<close> or more is an infinity.\<close>

definition round_double :: "rat \<Rightarrow> jsnum" where
  "round_double x =
     (if x = 0 then Fin 0
      else
        let e = max (exponent \<bar>x\<bar>) (- 1022);
            q = 2 powi (e - 52);
            r = of_int (round_half_even (x / q)) * q
        in if 2 powi 1024 \<le> r then PosInf
           else if r \<le> - (2 powi 1024) then NegInf
           else Fin r)"

fun js_div :: "jsnum \<Rightarrow> jsnum \<Rightarrow> jsnum" where
  "js_div (Fin a) (Fin b) =
     (if b \<noteq> 0 then round_double (a / b)
      else if a = 0 then NaN else if 0 < a then PosInf else NegInf)"
| "js_div PosInf (Fin b) = (if 0 \<le> b then PosInf else NegInf)"
| "js_div NegInf (Fin b) = (if 0 \<le> b then NegInf else PosInf)"
| "js_div (Fin a) PosInf = Fin 0"
| "js_div (Fin a) NegInf = Fin 0"
| "js_div x y = NaN"

fun js_mul :: "jsnum \<Rightarrow> jsnum \<Rightarrow> jsnum" where
  "js_mul (Fin a) (Fin b) = round_double (a * b)"
| "js_mul PosInf (Fin b) = (if b = 0 then NaN else if 0 < b then PosInf else NegInf)"
| "js_mul NegInf (Fin b) = (if b = 0 then NaN else if 0 < b then NegInf else PosInf)"
| "js_mul (Fin a) PosInf = (if a = 0 then NaN else if 0 < a then PosInf else NegInf)"
| "js_mul (Fin a) NegInf = (if a = 0 then NaN else if 0 < a then NegInf else PosInf)"
| "js_mul PosInf PosInf = PosInf"
| "js_mul NegInf NegInf = PosInf"
| "js_mul PosInf NegInf = NegInf"
| "js_mul NegInf PosInf = NegInf"
| "js_mul x y = NaN"

fun js_gt :: "jsnum \<Rightarrow> jsnum \<Rightarrow> bool" where
  "js_gt (Fin a) (Fin b) = (b < a)"
| "js_gt PosInf (Fin b) = True"
| "js_gt PosInf NegInf = True"
| "js_gt (Fin a) NegInf = True"
| "js_gt x y = False"

section \<open>The frame codec: \<open>sendRtspFrame\<close>\<close>

text \<open>The four header bytes: \<open>0x24\<close>, channel 2, and \<open>FRAME_LEN\<close> written by
  \<open>writeUInt16LE\<close> at offset 2.\<close>

definition rtsp_header :: "error + buffer" where
  "rtsp_header = writeUInt16LE FRAME_LEN 2 ((Buffer_alloc 4 0)[0 := 0x24, 1 := 0x02])"

definition rtsp_frame :: "buffer \<Rightarrow> buffer \<Rightarrow> buffer" where
  "rtsp_frame header chunk = Buffer_concat [header, Buffer_alloc 12 0, chunk]"

text \<open>
  \<open>sendRtspFrame(chunk)\<close>. The chunk is \<open>None\<close> when the caller passed \<open>undefined\<close> (the
  result of \<open>shift()\<close> on an empty queue): \<open>Buffer.concat\<close> then throws inside the
  \<open>try\<close>, and the \<open>catch\<close> only logs. A throwing \<open>socket.write\<close> is caught in the same
  way, before \<open>totalBytesSent\<close> is touched. The header is built outside the \<open>try\<close>; with
  the constants of the program it is always built (lemma \<open>rtsp_header_bytes\<close>).
\<close>

definition sendRtspFrame :: "buffer option \<Rightarrow> CameraClient \<Rightarrow> CameraClient" where
  "sendRtspFrame chunk s =
     (if destroyed (socket s) then s
      else case rtsp_header of
        Inl e \<Rightarrow> s
      | Inr header \<Rightarrow>
         (case chunk of
            None \<Rightarrow> s
          | Some c \<Rightarrow>
             (case socket_write (Bytes (rtsp_frame header c)) (socket s) of
                Inl e \<Rightarrow> s
              | Inr k \<Rightarrow> s\<lparr>socket := k, totalBytesSent := totalBytesSent s + length c\<rparr>)))"

section \<open>The control protocol\<close>

text \<open>The OPEN and CLOSE commands of \<open>CameraClient.connect\<close> and \<open>CameraClient.stop\<close>.\<close>

definition openCmd :: "string \<Rightarrow> string" where
  "openCmd addr =
     ''USER_CMD_SET rtsp://'' @ addr @ ''/onvif1 RTSP/1.0'' @ [CHR 0x0D, CHR 0x0A] @
     ''CSeq: 8'' @ [CHR 0x0D, CHR 0x0A] @
     ''Content-length: strlen(Content-type)'' @ [CHR 0x0D, CHR 0x0A] @
     ''Content-type: AudioCtlCmd:OPEN'' @ [CHR 0x0D, CHR 0x0A, CHR 0x0D, CHR 0x0A]"

definition closeCmd :: "string \<Rightarrow> string" where
  "closeCmd addr =
     ''USER_CMD_SET rtsp://'' @ addr @ ''/onvif1 RTSP/1.0'' @ [CHR 0x0D, CHR 0x0A] @
     ''CSeq: 10'' @ [CHR 0x0D, CHR 0x0A] @
     ''Content-length: strlen(Content-type)'' @ [CHR 0x0D, CHR 0x0A] @
     ''Content-type: AudioCtlCmd:CLOSE'' @ [CHR 0x0D, CHR 0x0A, CHR 0x0D, CHR 0x0A]"

text \<open>The OPEN command of the single-camera script \<open>intercom.js\<close> (lines 106 to 109).\<close>

definition openCmd_single :: "string \<Rightarrow> string" where
  "openCmd_single addr =
     ''USER_CMD_SET rtsp://'' @ addr @ ''/onvif0 RTSP/1.0'' @ [CHR 0x0D, CHR 0x0A] @
     ''CSeq: 8'' @ [CHR 0x0D, CHR 0x0A] @
     ''Content-length: strlen(Content-type)'' @ [CHR 0x0D, CHR 0x0A] @
     ''Content-type: AudioCtlCmd:OPEN'' @ [CHR 0x0D, CHR 0x0A, CHR 0x0D, CHR 0x0A]"

definition closeCmd_single :: "string \<Rightarrow> string" where
  "closeCmd_single addr = closeCmd addr"

text \<open>\<open>text.includes(needle)\<close>: the needle occurs as a contiguous run of the text. The
  recursion tries every start position, first to last.\<close>

fun str_includes :: "string \<Rightarrow> string \<Rightarrow> bool" where
  "str_includes [] needle = (needle = [])"
| "str_includes (c # cs) needle = (prefix needle (c # cs) \<or> str_includes cs needle)"

text \<open>The test of the \<open>'data'\<close> handler, \<open>data.toString().includes('CSeq: 8')\<close>. The
  inbound bytes are given as the string they decode to.\<close>

definition isHandshakeAccepted :: "string \<Rightarrow> bool" where
  "isHandshakeAccepted inbound = str_includes inbound ''CSeq: 8''"

section \<open>The camera session\<close>

definition setupSocket :: "CameraClient \<Rightarrow> CameraClient" where
  "setupSocket s = s\<lparr>socket := (socket s)\<lparr>timeoutMs := 10000\<rparr>\<rparr>"

definition new_CameraClient :: "string \<Rightarrow> nat \<Rightarrow> int \<Rightarrow> CameraClient" where
  "new_CameraClient addr prt rate =
     setupSocket \<lparr>ip = addr, port = prt, sampleRate = rate, socket = new_Socket,
       audioQueue = [], startTime = 0, totalBytesSent = 0, isThrottling = False,
       isConnected = False, timers = []\<rparr>"

subsection \<open>The pacer: \<open>processQueue\<close>\<close>

definition burstPackets :: "int \<Rightarrow> int" where
  "burstPackets rate = (rate * 2) div int CHUNK_SIZE"

text \<open>The burst loop \<open>for (i = 0; i < burstPackets; i++) sendRtspFrame(audioQueue.shift())\<close>,
  by the number of iterations left.\<close>

fun burst :: "nat \<Rightarrow> CameraClient \<Rightarrow> CameraClient" where
  "burst 0 s = s"
| "burst (Suc n) s =
     (let (chunk, rest) = shift (audioQueue s)
      in burst n (sendRtspFrame chunk (s\<lparr>audioQueue := rest\<rparr>)))"

definition audioTimeSentAdjusted :: "nat \<Rightarrow> int \<Rightarrow> jsnum" where
  "audioTimeSentAdjusted sent bytesPerSecond =
     js_div (js_mul (js_div (Fin (of_nat sent)) (Fin (of_int bytesPerSecond))) (Fin 1000))
       (Fin SPEED_MULTIPLIER)"

text \<open>The throttle test of lines 238 to 242, at the clock reading \<open>t2\<close>.\<close>

definition tooFarAhead :: "int \<Rightarrow> CameraClient \<Rightarrow> bool" where
  "tooFarAhead t2 s =
     (let timeElapsed = t2 - startTime s;
          bytesPerSecond = sampleRate s * 2
      in js_gt (audioTimeSentAdjusted (totalBytesSent s) bytesPerSecond)
           (Fin (of_int (timeElapsed + MAX_BUFFER_AHEAD_MS))))"

text \<open>Lines 238 to 255: throttle and come back in 10 ms, or send one chunk and come
  back at once.\<close>

definition pace :: "int \<Rightarrow> CameraClient \<Rightarrow> CameraClient" where
  "pace t2 s =
     (if tooFarAhead t2 s then s\<lparr>timers := timers s @ [ProcessQueueTimeout 10]\<rparr>
      else
        let (chunk, rest) = shift (audioQueue s);
            s1 = s\<lparr>audioQueue := rest\<rparr>;
            s2 = (case chunk of None \<Rightarrow> s1 | Some c \<Rightarrow> sendRtspFrame (Some c) s1)
        in s2\<lparr>timers := timers s2 @ [ProcessQueueImmediate]\<rparr>)"

definition processQueue :: "int \<Rightarrow> int \<Rightarrow> CameraClient \<Rightarrow> CameraClient" where
  "processQueue t1 t2 s0 =
     (if destroyed (socket s0) then s0\<lparr>audioQueue := []\<rparr>
      else if \<not> isConnected s0 then s0
      else
        let s = s0\<lparr>isThrottling := True\<rparr> in
        if audioQueue s = [] then s\<lparr>isThrottling := False\<rparr>
        else if startTime s = 0 then
          (if burstPackets (sampleRate s) < int (length (audioQueue s))
           then pace t2 ((burst (nat (burstPackets (sampleRate s))) s)\<lparr>startTime := t1\<rparr>)
           else s\<lparr>isThrottling := False\<rparr>)
        else pace t2 s)"

subsection \<open>\<open>enqueue\<close> and the socket's events\<close>

definition enqueue :: "int \<Rightarrow> int \<Rightarrow> buffer \<Rightarrow> CameraClient \<Rightarrow> CameraClient" where
  "enqueue t1 t2 chunk s0 =
     (let s1 = s0\<lparr>audioQueue := audioQueue s0 @ [Buffer_from chunk]\<rparr>;
          s2 = (if \<not> isConnected s1 \<and> 50000 < length (audioQueue s1)
                then s1\<lparr>audioQueue := snd (shift (audioQueue s1))\<rparr> else s1)
      in if isConnected s2 \<and> \<not> isThrottling s2 then processQueue t1 t2 s2 else s2)"

definition on_timeout :: "CameraClient \<Rightarrow> CameraClient" where
  "on_timeout s = s\<lparr>socket := socket_destroy (socket s), isConnected := False, audioQueue := []\<rparr>"

definition on_data :: "int \<Rightarrow> int \<Rightarrow> string \<Rightarrow> CameraClient \<Rightarrow> CameraClient" where
  "on_data t1 t2 inbound s =
     (if isHandshakeAccepted inbound then
        let s1 = s\<lparr>isConnected := True, socket := (socket s)\<lparr>timeoutMs := 0\<rparr>\<rparr>
        in if 0 < length (audioQueue s1) then processQueue t1 t2 s1 else s1
      else s)"

definition on_error :: "CameraClient \<Rightarrow> CameraClient" where
  "on_error s = s\<lparr>isConnected := False\<rparr>"

definition on_close :: "CameraClient \<Rightarrow> CameraClient" where
  "on_close s = s\<lparr>isConnected := False\<rparr>"

text \<open>\<open>connect()\<close> starts the connection; \<open>on_connect\<close> is its callback. The callback's
  \<open>socket.write\<close> is not guarded: an exception leaves the callback.\<close>

definition connect :: "CameraClient \<Rightarrow> CameraClient" where
  "connect s = s\<lparr>socket := (socket s)\<lparr>remote := Some (port s, ip s)\<rparr>\<rparr>"

definition on_connect :: "CameraClient \<Rightarrow> error + CameraClient" where
  "on_connect s =
     (case socket_write (Text (openCmd (ip s))) ((socket s)\<lparr>noDelay := True\<rparr>) of
        Inl e \<Rightarrow> Inl e
      | Inr k \<Rightarrow> Inr (s\<lparr>socket := k\<rparr>))"

definition stop :: "CameraClient \<Rightarrow> CameraClient" where
  "stop s =
     (let s1 = (if writable (socket s)
                then (case socket_write (Text (closeCmd (ip s))) (socket s) of
                        Inl e \<Rightarrow> s | Inr k \<Rightarrow> s\<lparr>socket := k\<rparr>)
                else s)
      in s1\<lparr>timers := timers s1 @ [DestroyTimeout 50]\<rparr>)"

text \<open>A pending callback runs: the \<open>n\<close>-th entry of \<open>timers\<close> is removed and its
  function is called.\<close>

definition fire :: "nat \<Rightarrow> int \<Rightarrow> int \<Rightarrow> CameraClient \<Rightarrow> CameraClient" where
  "fire n t1 t2 s =
     (if n < length (timers s) then
        let s1 = s\<lparr>timers := take n (timers s) @ drop (Suc n) (timers s)\<rparr>
        in (case timers s ! n of
              DestroyTimeout d \<Rightarrow> s1\<lparr>socket := socket_destroy (socket s1)\<rparr>
            | ProcessQueueTimeout d \<Rightarrow> processQueue t1 t2 s1
            | ProcessQueueImmediate \<Rightarrow> processQueue t1 t2 s1)
      else s)"

section \<open>The fan-out coordinator\<close>

text \<open>\<open>clients.forEach(client => client.enqueue(subChunk))\<close>; \<open>clk j\<close> are the two clock
  readings open to the call on the \<open>j\<close>-th client.\<close>

definition forEach_enqueue ::
  "(nat \<Rightarrow> int \<times> int) \<Rightarrow> buffer \<Rightarrow> CameraClient list \<Rightarrow> CameraClient list" where
  "forEach_enqueue clk subChunk clients =
     map (\<lambda>(j, c). enqueue (fst (clk j)) (snd (clk j)) subChunk c) (enumerate 0 clients)"

text \<open>The loop of the \<open>ffmpeg.stdout\<close> \<open>'data'\<close> handler, from offset \<open>i\<close> on.\<close>

function fanout_from ::
  "(nat \<Rightarrow> nat \<Rightarrow> int \<times> int) \<Rightarrow> nat \<Rightarrow> buffer \<Rightarrow> CameraClient list \<Rightarrow> CameraClient list" where
  "fanout_from clk i chunk clients =
     (if i < length chunk then
        let subChunk = slice i (i + CHUNK_SIZE) chunk
        in fanout_from clk (i + CHUNK_SIZE) chunk
             (if length subChunk = CHUNK_SIZE then forEach_enqueue (clk i) subChunk clients
              else clients)
      else clients)"
  by pat_completeness auto
termination
  by (relation "measure (\<lambda>(clk, i, chunk, clients). length chunk - i)")
    (auto simp: CHUNK_SIZE_def)

declare fanout_from.simps [simp del]

definition stdout_on_data ::
  "(nat \<Rightarrow> nat \<Rightarrow> int \<times> int) \<Rightarrow> buffer \<Rightarrow> CameraClient list \<Rightarrow> CameraClient list" where
  "stdout_on_data clk chunk clients = fanout_from clk 0 chunk clients"

section \<open>The single-camera script \<open>intercom.js\<close>\<close>

text \<open>The global variables of the script (\<open>config\<close>, \<open>client\<close>, \<open>audioQueue\<close>, \<open>startTime\<close>,
  \<open>totalBytesSent\<close>, \<open>isThrottling\<close>) and its pending callbacks.\<close>

record Intercom =
  config_ip :: string
  config_port :: nat
  config_rate :: int
  client :: Socket
  audioQueue_single :: "buffer list"
  startTime_single :: int
  totalBytesSent_single :: nat
  isThrottling_single :: bool
  timers_single :: "timer list"

text \<open>The literal \<open>1.3\<close>: the double nearest to \<open>13 / 10\<close>.\<close>

definition SPEED_MULTIPLIER_single :: jsnum where
  "SPEED_MULTIPLIER_single = round_double (13 / 10)"

text \<open>\<open>sendRtspFrame\<close> of the script has no guard and no \<open>try\<close>: an exception of
  \<open>Buffer.concat\<close> or \<open>client.write\<close> leaves the function, and so the callers.\<close>

definition sendRtspFrame_single :: "buffer option \<Rightarrow> Intercom \<Rightarrow> error + Intercom" where
  "sendRtspFrame_single chunk s =
     (case rtsp_header of
        Inl e \<Rightarrow> Inl e
      | Inr header \<Rightarrow>
         (case chunk of
            None \<Rightarrow> Inl TypeError
          | Some c \<Rightarrow>
             (case socket_write (Bytes (rtsp_frame header c)) (client s) of
                Inl e \<Rightarrow> Inl e
              | Inr k \<Rightarrow> Inr (s\<lparr>client := k,
                  totalBytesSent_single := totalBytesSent_single s + length c\<rparr>))))"

fun burst_single :: "nat \<Rightarrow> Intercom \<Rightarrow> error + Intercom" where
  "burst_single 0 s = Inr s"
| "burst_single (Suc n) s =
     (let (chunk, rest) = shift (audioQueue_single s)
      in case sendRtspFrame_single chunk (s\<lparr>audioQueue_single := rest\<rparr>) of
           Inl e \<Rightarrow> Inl e
         | Inr s1 \<Rightarrow> burst_single n s1)"

definition tooFarAhead_single :: "int \<Rightarrow> Intercom \<Rightarrow> bool" where
  "tooFarAhead_single t2 s =
     (let timeElapsed = t2 - startTime_single s;
          bytesPerSecond = config_rate s * 2;
          audioTimeSentAdjusted =
            js_div (js_mul (js_div (Fin (of_nat (totalBytesSent_single s)))
                              (Fin (of_int bytesPerSecond))) (Fin 1000))
              SPEED_MULTIPLIER_single
      in js_gt audioTimeSentAdjusted (Fin (of_int (timeElapsed + MAX_BUFFER_AHEAD_MS))))"

definition pace_single :: "int \<Rightarrow> Intercom \<Rightarrow> error + Intercom" where
  "pace_single t2 s =
     (if tooFarAhead_single t2 s
      then Inr (s\<lparr>timers_single := timers_single s @ [ProcessQueueTimeout 10]\<rparr>)
      else
        let (chunk, rest) = shift (audioQueue_single s)
        in case sendRtspFrame_single chunk (s\<lparr>audioQueue_single := rest\<rparr>) of
             Inl e \<Rightarrow> Inl e
           | Inr s1 \<Rightarrow> Inr (s1\<lparr>timers_single := timers_single s1 @ [ProcessQueueImmediate]\<rparr>))"

definition processQueue_single :: "int \<Rightarrow> int \<Rightarrow> Intercom \<Rightarrow> error + Intercom" where
  "processQueue_single t1 t2 s0 =
     (let s = s0\<lparr>isThrottling_single := True\<rparr> in
      if audioQueue_single s = [] then Inr (s\<lparr>isThrottling_single := False\<rparr>)
      else if startTime_single s = 0 then
        (if burstPackets (config_rate s) < int (length (audioQueue_single s))
         then (case burst_single (nat (burstPackets (config_rate s))) s of
                 Inl e \<Rightarrow> Inl e
               | Inr s1 \<Rightarrow> pace_single t2 (s1\<lparr>startTime_single := t1\<rparr>))
         else Inr (s\<lparr>isThrottling_single := False\<rparr>))
      else pace_single t2 s)"

text \<open>The loop of the \<open>ffmpeg.stdout\<close> \<open>'data'\<close> handler of the script, from offset \<open>i\<close>
  on: every full slice is pushed on the queue.\<close>

function push_slices :: "nat \<Rightarrow> buffer \<Rightarrow> buffer list \<Rightarrow> buffer list" where
  "push_slices i chunk q =
     (if i < length chunk then
        let subChunk = slice i (i + CHUNK_SIZE) chunk
        in push_slices (i + CHUNK_SIZE) chunk
             (if length subChunk = CHUNK_SIZE then q @ [subChunk] else q)
      else q)"
  by pat_completeness auto
termination
  by (relation "measure (\<lambda>(i, chunk, q). length chunk - i)") (auto simp: CHUNK_SIZE_def)

declare push_slices.simps [simp del]

definition stdout_on_data_single :: "int \<Rightarrow> int \<Rightarrow> buffer \<Rightarrow> Intercom \<Rightarrow> error + Intercom" where
  "stdout_on_data_single t1 t2 chunk s =
     (let s1 = s\<lparr>audioQueue_single := push_slices 0 chunk (audioQueue_single s)\<rparr>
      in if \<not> isThrottling_single s1 then processQueue_single t1 t2 s1 else Inr s1)"

section \<open>Runs of the event loop\<close>

text \<open>A run of \<open>enqueue\<close> calls on one client, each with its chunk and the clock readings
  open to it, in order.\<close>

fun enqueue_all :: "(buffer \<times> int \<times> int) list \<Rightarrow> CameraClient \<Rightarrow> CameraClient" where
  "enqueue_all [] s = s"
| "enqueue_all ((chunk, t1, t2) # xs) s = enqueue_all xs (enqueue t1 t2 chunk s)"

text \<open>The pending callbacks of one client run one after the other, oldest first, each at
  its own clock readings.\<close>

fun drain :: "(int \<times> int) list \<Rightarrow> CameraClient \<Rightarrow> CameraClient" where
  "drain [] s = s"
| "drain ((t1, t2) # ts) s = drain ts (fire 0 t1 t2 s)"

section \<open>The program as a transition system\<close>

text \<open>
  What can happen to one client between two runs of the fan-out handler: its methods
  \<open>connect\<close> and \<open>stop\<close> are called, its socket reports an event, one of its pending
  callbacks runs, or the environment changes the state of the socket. An exception that
  leaves the connect callback ends the process: there is no next state.
\<close>

datatype event =
    CallConnect
  | CallStop
  | SocketConnected
  | SocketTimeout
  | SocketData int int string
  | SocketError
  | SocketClose
  | TimerFires nat int int
  | SocketEnvironment bool bool bool

fun client_step :: "event \<Rightarrow> CameraClient \<Rightarrow> CameraClient option" where
  "client_step CallConnect s = Some (connect s)"
| "client_step CallStop s = Some (stop s)"
| "client_step SocketConnected s = (case on_connect s of Inl e \<Rightarrow> None | Inr s1 \<Rightarrow> Some s1)"
| "client_step SocketTimeout s = Some (on_timeout s)"
| "client_step (SocketData t1 t2 inbound) s = Some (on_data t1 t2 inbound s)"
| "client_step SocketError s = Some (on_error s)"
| "client_step SocketClose s = Some (on_close s)"
| "client_step (TimerFires n t1 t2) s = Some (fire n t1 t2 s)"
| "client_step (SocketEnvironment d w x) s =
     Some (s\<lparr>socket := (socket s)\<lparr>destroyed := d, writable := w, writeThrows := x\<rparr>\<rparr>)"

text \<open>The states of the clients that a run of the program can reach, for the port, the
  sample rate and the addresses of the configuration: one client per address at the
  start; then the transcoder delivers data to the fan-out handler, or something happens
  to one client.\<close>

inductive_set reachable :: "nat \<Rightarrow> int \<Rightarrow> string list \<Rightarrow> CameraClient list set"
  for prt :: nat and rate :: int and ips :: "string list" where
  start: "map (\<lambda>addr. new_CameraClient addr prt rate) ips \<in> reachable prt rate ips"
| stdout_data: "clients \<in> reachable prt rate ips \<Longrightarrow>
     stdout_on_data clk chunk clients \<in> reachable prt rate ips"
| client_event: "clients \<in> reachable prt rate ips \<Longrightarrow> i < length clients \<Longrightarrow>
     client_step ev (clients ! i) = Some c \<Longrightarrow> clients[i := c] \<in> reachable prt rate ips"

text \<open>The audio frames among the data handed to the socket, oldest first.\<close>

fun sent_frames :: "wire list \<Rightarrow> buffer list" where
  "sent_frames [] = []"
| "sent_frames (Bytes b # w) = b # sent_frames w"
| "sent_frames (Text t # w) = sent_frames w"

text \<open>The accounting invariant of a client: every queued chunk has \<open>CHUNK_SIZE\<close> bytes,
  every audio frame handed to the socket has \<open>4 + 12 + CHUNK_SIZE\<close> bytes, and
  \<open>totalBytesSent\<close> is \<open>CHUNK_SIZE\<close> times the number of those frames.\<close>

definition accounted :: "CameraClient \<Rightarrow> bool" where
  "accounted s \<longleftrightarrow>
     (\<forall>c\<in>set (audioQueue s). length c = CHUNK_SIZE) \<and>
     (\<forall>f\<in>set (sent_frames (written (socket s))). length f = 4 + 12 + CHUNK_SIZE) \<and>
     totalBytesSent s = CHUNK_SIZE * length (sent_frames (written (socket s)))"

section \<open>Concrete inputs\<close>

text \<open>A chunk of silence, a clock reading, an accepting reply of the camera, and a client
  for the default sample rate before and after the handshake.\<close>

definition chunk0 :: buffer where
  "chunk0 = replicate 320 0"

definition clock0 :: int where
  "clock0 = 1700000000000"

definition accepted0 :: string where
  "accepted0 = ''RTSP/1.0 200 OK'' @ [CHR 0x0D, CHR 0x0A] @ ''CSeq: 8'' @ [CHR 0x0D, CHR 0x0A, CHR 0x0D, CHR 0x0A]"

text \<open>The reply to the CLOSE command: it carries \<open>CSeq: 10\<close> only.\<close>

definition closing0 :: string where
  "closing0 = ''RTSP/1.0 200 OK'' @ [CHR 0x0D, CHR 0x0A] @ ''CSeq: 10'' @ [CHR 0x0D, CHR 0x0A, CHR 0x0D, CHR 0x0A]"

definition camera0 :: CameraClient where
  "camera0 = new_CameraClient ''192.168.1.100'' 554 8000"

definition streaming0 :: CameraClient where
  "streaming0 = on_data clock0 clock0 accepted0 camera0"



section \<open>Properties of the frame codec\<close>

lemma header_alloc: "(Buffer_alloc 4 0)[0 := 0x24, 1 := 0x02] = [0x24, 0x02, 0, 0]"
  by (simp add: Buffer_alloc_def numeral_eq_Suc)

lemma header_length_field: "writeUInt16LE FRAME_LEN 2 [a, b, c, d] = Inr [a, b, 0x4C, 0x01]"
  unfolding writeUInt16LE_def FRAME_LEN_def by simp

lemma rtsp_header_bytes: "rtsp_header = Inr [0x24, 0x02, 0x4C, 0x01]"
  unfolding rtsp_header_def header_alloc by (rule header_length_field)

lemma rtsp_frame_layout:
  "rtsp_frame [0x24, 0x02, 0x4C, 0x01] c = [0x24, 0x02, 0x4C, 0x01] @ replicate 12 0 @ c"
  by (simp add: rtsp_frame_def Buffer_concat_def Buffer_alloc_def)

lemma sendRtspFrame_sent:
  assumes "\<not> destroyed (socket s)" and "\<not> writeThrows (socket s)"
  shows "sendRtspFrame (Some c) s =
     s\<lparr>socket := (socket s)\<lparr>written := written (socket s) @ [Bytes (rtsp_frame [0x24, 0x02, 0x4C, 0x01] c)]\<rparr>,
       totalBytesSent := totalBytesSent s + length c\<rparr>"
  using assms by (simp add: sendRtspFrame_def rtsp_header_bytes socket_write_def)

lemma sendRtspFrame_destroyed: "destroyed (socket s) \<Longrightarrow> sendRtspFrame chunk s = s"
  by (simp add: sendRtspFrame_def)

lemma sendRtspFrame_throws: "writeThrows (socket s) \<Longrightarrow> sendRtspFrame chunk s = s"
  by (simp add: sendRtspFrame_def rtsp_header_bytes socket_write_def split: option.splits)

lemma sendRtspFrame_undefined: "sendRtspFrame None s = s"
  by (simp add: sendRtspFrame_def rtsp_header_bytes)

text \<open>
  Claim C2. For every payload of exactly \<open>CHUNK_SIZE = 320\<close> bytes, a frame send on a
  live socket hands the socket one frame of exactly \<open>4 + 12 + 320 = 336\<close> bytes: byte 0 is
  \<open>0x24\<close>, byte 1 is the channel id \<open>0x02\<close>, bytes 2 and 3 are \<open>CHUNK_SIZE + 12 = 332\<close>
  in little-endian order (\<open>0x4C\<close>, \<open>0x01\<close>), bytes 4 to 15 are twelve zero bytes, and the
  bytes from 16 on are the payload unchanged.
\<close>

theorem sendRtspFrame_frame_layout:
  assumes "length payload = CHUNK_SIZE"
    and "\<not> destroyed (socket s)" and "\<not> writeThrows (socket s)"
  shows "\<exists>frame.
      written (socket (sendRtspFrame (Some payload) s)) = written (socket s) @ [Bytes frame] \<and>
      length frame = 4 + 12 + 320 \<and> length frame = 336 \<and>
      frame ! 0 = 0x24 \<and> frame ! 1 = 0x02 \<and>
      frame ! 2 = 0x4C \<and> frame ! 3 = 0x01 \<and>
      unat (frame ! 2) + 256 * unat (frame ! 3) = CHUNK_SIZE + 12 \<and>
      take 12 (drop 4 frame) = replicate 12 0 \<and>
      drop 16 frame = payload"
proof -
  let ?f = "[0x24, 0x02, 0x4C, 0x01] @ replicate 12 (0::byte) @ payload"
  have w: "written (socket (sendRtspFrame (Some payload) s)) = written (socket s) @ [Bytes ?f]"
    using assms(2,3) by (simp add: sendRtspFrame_sent rtsp_frame_layout)
  have len: "length ?f = 336"
    using assms(1) by (simp add: CHUNK_SIZE_def)
  have b: "?f ! 0 = 0x24" "?f ! 1 = 0x02" "?f ! 2 = 0x4C" "?f ! 3 = 0x01"
    by (simp_all add: numeral_2_eq_2 numeral_3_eq_3)
  have le: "unat (?f ! 2) + 256 * unat (?f ! 3) = CHUNK_SIZE + 12"
    unfolding b by (simp add: CHUNK_SIZE_def)
  have pad: "take 12 (drop 4 ?f) = replicate 12 0"
    by simp
  have pay: "drop 16 ?f = payload"
    by simp
  show ?thesis
    using w len b le pad pay by (intro exI[of _ ?f]) simp
qed

theorem sendRtspFrame_frame_layout_witness:
  "length (replicate 320 (0::byte)) = CHUNK_SIZE \<and>
   \<not> destroyed (socket (new_CameraClient ''192.168.1.100'' 554 8000)) \<and>
   \<not> writeThrows (socket (new_CameraClient ''192.168.1.100'' 554 8000)) \<and>
   (\<exists>frame.
      written (socket (sendRtspFrame (Some (replicate 320 0))
        (new_CameraClient ''192.168.1.100'' 554 8000))) = [Bytes frame] \<and>
      length frame = 336 \<and> frame ! 0 = 0x24 \<and> frame ! 2 = 0x4C \<and> frame ! 3 = 0x01 \<and>
      drop 16 frame = replicate 320 0)"
proof -
  have h: "length (replicate 320 (0::byte)) = CHUNK_SIZE"
    "\<not> destroyed (socket (new_CameraClient ''192.168.1.100'' 554 8000))"
    "\<not> writeThrows (socket (new_CameraClient ''192.168.1.100'' 554 8000))"
    "written (socket (new_CameraClient ''192.168.1.100'' 554 8000)) = []"
    by (simp_all add: CHUNK_SIZE_def new_CameraClient_def setupSocket_def new_Socket_def)
  from sendRtspFrame_frame_layout [OF h(1) h(2) h(3)] h show ?thesis
    by auto
qed
section \<open>Properties of the pacer\<close>

lemma shift_Cons: "shift (x # r) = (Some x, r)"
  by (simp add: shift_def)

lemma shift_Nil: "shift [] = (None, [])"
  by (simp add: shift_def)

lemma burst_sends:
  assumes "n \<le> length (audioQueue s)"
    and "\<not> destroyed (socket s)" and "\<not> writeThrows (socket s)"
  shows "burst n s =
     s\<lparr>audioQueue := drop n (audioQueue s),
       socket := (socket s)\<lparr>written := written (socket s) @
         map (\<lambda>c. Bytes (rtsp_frame [0x24, 0x02, 0x4C, 0x01] c)) (take n (audioQueue s))\<rparr>,
       totalBytesSent := totalBytesSent s + sum_list (map length (take n (audioQueue s)))\<rparr>"
  using assms
proof (induction n arbitrary: s)
  case 0
  then show ?case by simp
next
  case (Suc n)
  then obtain c r where q: "audioQueue s = c # r"
    by (cases "audioQueue s") auto
  let ?s1 = "sendRtspFrame (Some c) (s\<lparr>audioQueue := r\<rparr>)"
  have s1: "?s1 = s\<lparr>audioQueue := r,
       socket := (socket s)\<lparr>written := written (socket s) @
         [Bytes (rtsp_frame [0x24, 0x02, 0x4C, 0x01] c)]\<rparr>,
       totalBytesSent := totalBytesSent s + length c\<rparr>"
    using Suc.prems by (simp add: sendRtspFrame_sent)
  have "burst (Suc n) s = burst n ?s1"
    by (simp add: q shift_Cons)
  also have "\<dots> = ?s1\<lparr>audioQueue := drop n (audioQueue ?s1),
       socket := (socket ?s1)\<lparr>written := written (socket ?s1) @
         map (\<lambda>c. Bytes (rtsp_frame [0x24, 0x02, 0x4C, 0x01] c)) (take n (audioQueue ?s1))\<rparr>,
       totalBytesSent := totalBytesSent ?s1 + sum_list (map length (take n (audioQueue ?s1)))\<rparr>"
    using Suc.prems by (intro Suc.IH) (simp_all add: s1 q)
  also have "\<dots> = s\<lparr>audioQueue := drop (Suc n) (audioQueue s),
       socket := (socket s)\<lparr>written := written (socket s) @
         map (\<lambda>c. Bytes (rtsp_frame [0x24, 0x02, 0x4C, 0x01] c)) (take (Suc n) (audioQueue s))\<rparr>,
       totalBytesSent := totalBytesSent s + sum_list (map length (take (Suc n) (audioQueue s)))\<rparr>"
    by (simp add: s1 q)
  finally show ?case .
qed

subsection \<open>Rounding to the nearest double\<close>

lemma exponent_bounds:
  assumes "0 < x"
  shows "2 powi exponent x \<le> x" and "x < 2 powi (exponent x + 1)"
proof -
  obtain p q where pq: "quotient_of x = (p, q)" by (cases "quotient_of x")
  have q: "0 < q" using quotient_of_denom_pos [OF pq] .
  have x: "x = of_int p / of_int q" using quotient_of_div [OF pq] .
  have p: "0 < p"
    using assms q unfolding x by (simp add: zero_less_divide_iff)
  let ?P = "bitlen p" and ?Q = "bitlen q"
  have P1: "1 \<le> ?P" and Q1: "1 \<le> ?Q"
    using p q by (simp_all add: bitlen_alt_def)
  have pl: "(2::rat) powi (?P - 1) \<le> of_int p"
  proof -
    have "(2::int) ^ nat (?P - 1) \<le> p" using bitlen_bounds [OF p] by simp
    then have "(of_int ((2::int) ^ nat (?P - 1)) :: rat) \<le> of_int p" by (simp only: of_int_le_iff)
    then show ?thesis using P1 by (simp add: power_int_nonneg_exp)
  qed
  have pu: "(of_int p :: rat) < 2 powi ?P"
  proof -
    have "p < (2::int) ^ nat ?P" using bitlen_bounds [OF p] by simp
    then have "(of_int p :: rat) < of_int ((2::int) ^ nat ?P)" by (simp only: of_int_less_iff)
    then show ?thesis using P1 by (simp add: power_int_nonneg_exp)
  qed
  have ql: "(2::rat) powi (?Q - 1) \<le> of_int q"
  proof -
    have "(2::int) ^ nat (?Q - 1) \<le> q" using bitlen_bounds [OF q] by simp
    then have "(of_int ((2::int) ^ nat (?Q - 1)) :: rat) \<le> of_int q" by (simp only: of_int_le_iff)
    then show ?thesis using Q1 by (simp add: power_int_nonneg_exp)
  qed
  have qu: "(of_int q :: rat) < 2 powi ?Q"
  proof -
    have "q < (2::int) ^ nat ?Q" using bitlen_bounds [OF q] by simp
    then have "(of_int q :: rat) < of_int ((2::int) ^ nat ?Q)" by (simp only: of_int_less_iff)
    then show ?thesis using Q1 by (simp add: power_int_nonneg_exp)
  qed
  have qpos: "(0::rat) < of_int q" using q by simp
  have low: "(2::rat) powi (?P - ?Q - 1) < x"
  proof -
    have "(2::rat) powi (?P - ?Q - 1) * of_int q < 2 powi (?P - ?Q - 1) * 2 powi ?Q"
      using qu by (intro mult_strict_left_mono) simp_all
    also have "\<dots> = 2 powi (?P - 1)"
      by (simp add: power_int_add [symmetric])
    also have "\<dots> \<le> of_int p" by (rule pl)
    finally show ?thesis
      unfolding x using qpos by (simp add: pos_less_divide_eq)
  qed
  have up: "x < (2::rat) powi (?P - ?Q + 1)"
  proof -
    have "(of_int p :: rat) < 2 powi ?P" by (rule pu)
    also have "\<dots> = 2 powi (?P - ?Q + 1) * 2 powi (?Q - 1)"
      by (simp add: power_int_add [symmetric])
    also have "\<dots> \<le> 2 powi (?P - ?Q + 1) * of_int q"
      using ql by (intro mult_left_mono) simp_all
    finally show ?thesis
      unfolding x using qpos by (simp add: pos_divide_less_eq)
  qed
  show "2 powi exponent x \<le> x"
    using low by (auto simp: exponent_def pq Let_def)
  show "x < 2 powi (exponent x + 1)"
    using up by (auto simp: exponent_def pq Let_def not_le)
qed

lemma round_half_even_le:
  assumes "x \<le> of_int n"
  shows "round_half_even x \<le> n"
proof -
  have f: "\<lfloor>x\<rfloor> \<le> n" using assms by (simp add: floor_le_iff)
  show ?thesis
  proof (cases "\<lfloor>x\<rfloor> = n")
    case True
    then have "x - of_int \<lfloor>x\<rfloor> \<le> 0" using assms by simp
    then show ?thesis using True by (simp add: round_half_even_def Let_def)
  next
    case False
    then have "\<lfloor>x\<rfloor> + 1 \<le> n" using f by simp
    then show ?thesis using f by (simp add: round_half_even_def Let_def)
  qed
qed

lemma round_half_even_ge:
  assumes "of_int n \<le> x"
  shows "n \<le> round_half_even x"
proof -
  have "n \<le> \<lfloor>x\<rfloor>" using assms by (simp add: le_floor_iff)
  then show ?thesis by (simp add: round_half_even_def Let_def)
qed

lemma round_double_upper:
  assumes "0 \<le> x" and "x \<le> of_int c" and "c < 2 ^ 53"
  shows "\<exists>r. round_double x = Fin r \<and> 0 \<le> r \<and> r \<le> of_int c"
proof (cases "x = 0")
  case True
  then show ?thesis using assms by (simp add: round_double_def)
next
  case False
  then have pos: "0 < x" using assms(1) by simp
  let ?e = "max (exponent \<bar>x\<bar>) (- 1022)"
  let ?q = "(2::rat) powi (?e - 52)"
  let ?r = "of_int (round_half_even (x / ?q)) * ?q"
  have "2 powi exponent x \<le> x" using exponent_bounds(1) [OF pos] .
  also have "x \<le> of_int c" by (rule assms(2))
  also have "(of_int c :: rat) < 2 powi 53"
    using assms(3) by (simp flip: of_int_less_iff)
  finally have "(2::rat) powi exponent x < 2 powi 53" .
  then have "exponent x < 53"
    by (rule power_int_le_imp_less_exp [rotated]) simp_all
  then have e: "?e \<le> 52" using pos by simp
  have qpos: "0 < ?q" by simp
  have inv: "1 / ?q = of_int (2 ^ nat (52 - ?e))"
  proof -
    have "1 / ?q = 2 powi (52 - ?e)"
      by (simp add: power_int_minus_divide [symmetric])
    then show ?thesis using e by (simp add: power_int_nonneg_exp)
  qed
  have "x / ?q \<le> of_int c / ?q"
    using assms(2) qpos by (simp add: divide_right_mono)
  also have "of_int c / ?q = of_int c * (1 / ?q)" by simp
  also have "\<dots> = of_int (c * 2 ^ nat (52 - ?e))"
    unfolding inv by simp
  finally have "round_half_even (x / ?q) \<le> c * 2 ^ nat (52 - ?e)"
    by (rule round_half_even_le)
  then have "(of_int (round_half_even (x / ?q)) :: rat) \<le> of_int (c * 2 ^ nat (52 - ?e))"
    by (simp only: of_int_le_iff)
  then have "?r \<le> of_int (c * 2 ^ nat (52 - ?e)) * ?q"
    using qpos by (simp add: mult_right_mono)
  also have "\<dots> = of_int c * ((1 / ?q) * ?q)"
    unfolding inv by simp
  also have "\<dots> = of_int c" using qpos by simp
  finally have ru: "?r \<le> of_int c" .
  have "of_int 0 \<le> x / ?q" using pos qpos by simp
  then have "0 \<le> round_half_even (x / ?q)" by (rule round_half_even_ge)
  then have rl: "0 \<le> ?r" using qpos by simp
  have "(of_int c :: rat) < 2 powi 1024"
  proof -
    have "(of_int c :: rat) < 2 ^ 53" using assms(3) by (simp flip: of_int_less_iff)
    also have "\<dots> \<le> 2 ^ 1024" by (intro power_increasing) simp_all
    finally show ?thesis by simp
  qed
  then have no: "\<not> 2 powi 1024 \<le> ?r" using ru by simp
  have "- ((2::rat) powi 1024) < 0" by simp
  then have nn: "\<not> ?r \<le> - (2 powi 1024)" using rl by linarith
  have "round_double x = Fin ?r"
    using False no nn by (simp add: round_double_def Let_def)
  then show ?thesis using rl ru by blast
qed

lemma audioTimeSentAdjusted_upper:
  assumes "0 < bps" and "int sent \<le> 2 * bps"
  shows "\<exists>r. audioTimeSentAdjusted sent bps = Fin r \<and> r \<le> 2000"
proof -
  have pos: "(0::rat) < of_int bps" using assms(1) by simp
  have "(of_int (int sent) :: rat) \<le> of_int (2 * bps)"
    using assms(2) by (simp only: of_int_le_iff)
  then have "(of_nat sent :: rat) \<le> 2 * of_int bps" by simp
  then have u1: "of_nat sent / of_int bps \<le> (of_int 2 :: rat)"
    using pos by (simp add: pos_divide_le_eq)
  have l1: "(0::rat) \<le> of_nat sent / of_int bps"
    using pos by simp
  obtain r1 where r1: "round_double (of_nat sent / of_int bps) = Fin r1" "0 \<le> r1" "r1 \<le> of_int 2"
    using round_double_upper [OF l1 u1] by auto
  have "0 \<le> r1 * 1000" "r1 * 1000 \<le> of_int 2000"
    using r1(2,3) by simp_all
  then obtain r2 where r2: "round_double (r1 * 1000) = Fin r2" "0 \<le> r2" "r2 \<le> of_int 2000"
    using round_double_upper [of "r1 * 1000" 2000] by auto
  obtain r3 where r3: "round_double r2 = Fin r3" "r3 \<le> of_int 2000"
    using round_double_upper [OF r2(2,3)] by auto
  have "audioTimeSentAdjusted sent bps = Fin r3"
    using pos by (simp add: audioTimeSentAdjusted_def SPEED_MULTIPLIER_def r1 r2 r3)
  then show ?thesis using r3(2) by auto
qed

lemma pace_throttled:
  "tooFarAhead t2 s \<Longrightarrow> pace t2 s = s\<lparr>timers := timers s @ [ProcessQueueTimeout 10]\<rparr>"
  by (simp add: pace_def)

lemma pace_sends:
  assumes "\<not> tooFarAhead t2 s" and "audioQueue s = c # r"
    and "\<not> destroyed (socket s)" and "\<not> writeThrows (socket s)"
  shows "pace t2 s =
     s\<lparr>audioQueue := r,
       socket := (socket s)\<lparr>written := written (socket s) @
         [Bytes (rtsp_frame [0x24, 0x02, 0x4C, 0x01] c)]\<rparr>,
       totalBytesSent := totalBytesSent s + length c,
       timers := timers s @ [ProcessQueueImmediate]\<rparr>"
  using assms by (simp add: pace_def shift_Cons sendRtspFrame_sent)

lemma processQueue_steady:
  assumes "\<not> destroyed (socket s)" and "isConnected s" and "audioQueue s \<noteq> []"
    and "startTime s \<noteq> 0"
  shows "processQueue t1 t2 s = pace t2 (s\<lparr>isThrottling := True\<rparr>)"
  using assms by (simp add: processQueue_def Let_def)

lemma processQueue_empty:
  assumes "\<not> destroyed (socket s)" and "isConnected s" and "audioQueue s = []"
  shows "processQueue t1 t2 s = s\<lparr>isThrottling := False\<rparr>"
  using assms by (simp add: processQueue_def Let_def)

lemma processQueue_cold_wait:
  assumes "\<not> destroyed (socket s)" and "isConnected s" and "startTime s = 0"
    and "int (length (audioQueue s)) \<le> burstPackets (sampleRate s)"
  shows "processQueue t1 t2 s = s\<lparr>isThrottling := False\<rparr>"
  using assms by (simp add: processQueue_def Let_def)

lemma processQueue_cold_burst:
  assumes "\<not> destroyed (socket s)" and "isConnected s" and "startTime s = 0"
    and "audioQueue s \<noteq> []"
    and "burstPackets (sampleRate s) < int (length (audioQueue s))"
  shows "processQueue t1 t2 s =
     pace t2 ((burst (nat (burstPackets (sampleRate s))) (s\<lparr>isThrottling := True\<rparr>))\<lparr>startTime := t1\<rparr>)"
  using assms by (auto simp add: processQueue_def Let_def)

lemma sum_list_lengths:
  "\<forall>c\<in>set cs. length c = k \<Longrightarrow> sum_list (map length cs) = length cs * k"
  by (induction cs) auto

lemma burstPackets_50: "burstPackets rate = 50 \<longleftrightarrow> 8000 \<le> rate \<and> rate < 8160"
  unfolding burstPackets_def CHUNK_SIZE_def by simp presburger

text \<open>The test follows the doubles and not the exact quotients: 128960 bytes at 8000 Hz
  are 8060 ms of audio, the rounded product \<open>8.06 * 1000\<close> is just above 8060, and the
  pacer throttles at 6060 ms elapsed.\<close>

lemma tooFarAhead_rounding:
  assumes "sampleRate s = 8000" and "totalBytesSent s = 128960" and "t2 - startTime s = 6060"
  shows "tooFarAhead t2 s"
proof -
  have "js_gt (js_div (js_mul (js_div (Fin 128960) (Fin 16000)) (Fin 1000)) (Fin 1)) (Fin 8060)"
    by code_simp
  then show ?thesis
    by (simp add: tooFarAhead_def audioTimeSentAdjusted_def SPEED_MULTIPLIER_def
        MAX_BUFFER_AHEAD_MS_def Let_def assms del: js_div.simps(1) js_mul.simps(1))
qed

lemma exact_quotients:
  "(128960 / 16000 * 1000 / 1 :: rat) = 8060" "(403 / 100 * 1000 / (13 / 10) :: rat) = 3100"
  by simp_all

lemma not_ahead_after_burst:
  assumes "8000 \<le> sampleRate s" and "startTime s \<le> t2" and "totalBytesSent s \<le> 32000"
  shows "\<not> tooFarAhead t2 s"
proof -
  obtain r where r: "audioTimeSentAdjusted (totalBytesSent s) (sampleRate s * 2) = Fin r"
    and u: "r \<le> 2000"
    using audioTimeSentAdjusted_upper [of "sampleRate s * 2" "totalBytesSent s"] assms(1,3)
    by auto
  have "(of_int 2000 :: rat) \<le> of_int (t2 - startTime s + 2000)"
    using assms(2) by simp
  then have "r \<le> of_int (t2 - startTime s + 2000)"
    using u by simp
  then show ?thesis
    by (simp add: tooFarAhead_def Let_def r MAX_BUFFER_AHEAD_MS_def not_less)
qed

lemma cold_cycle_burst_and_one:
  assumes live: "\<not> destroyed (socket s)" "\<not> writeThrows (socket s)"
    and conn: "isConnected s"
    and cold: "startTime s = 0" "totalBytesSent s = 0"
    and rate: "burstPackets (sampleRate s) = 50"
    and len: "50 < length (audioQueue s)"
    and chunks: "\<forall>c\<in>set (audioQueue s). length c = CHUNK_SIZE"
    and clock: "t1 \<le> t2"
  shows "processQueue t1 t2 s =
     s\<lparr>audioQueue := drop 51 (audioQueue s),
       socket := (socket s)\<lparr>written := written (socket s) @
         map (\<lambda>c. Bytes (rtsp_frame [0x24, 0x02, 0x4C, 0x01] c)) (take 51 (audioQueue s))\<rparr>,
       totalBytesSent := 51 * CHUNK_SIZE,
       startTime := t1,
       isThrottling := True,
       timers := timers s @ [ProcessQueueImmediate]\<rparr>"
proof -
  let ?F = "\<lambda>c. Bytes (rtsp_frame [0x24, 0x02, 0x4C, 0x01] c)"
  let ?q = "audioQueue s"
  let ?s0 = "s\<lparr>isThrottling := True\<rparr>"
  have ne: "?q \<noteq> []" using len by auto
  have t50: "\<forall>c\<in>set (take 50 ?q). length c = CHUNK_SIZE"
    using chunks by (auto dest: in_set_takeD)
  have sum50: "sum_list (map length (take 50 ?q)) = 16000"
    using sum_list_lengths [OF t50] len by (simp add: CHUNK_SIZE_def)
  have b: "burst 50 ?s0 =
     ?s0\<lparr>audioQueue := drop 50 ?q,
       socket := (socket s)\<lparr>written := written (socket s) @ map ?F (take 50 ?q)\<rparr>,
       totalBytesSent := 16000\<rparr>"
    using burst_sends [of 50 ?s0] live len cold by (simp add: sum50)
  let ?s1 = "(burst 50 ?s0)\<lparr>startTime := t1\<rparr>"
  obtain c r where d50: "drop 50 ?q = c # r"
    using len by (cases "drop 50 ?q") auto
  have c320: "length c = CHUNK_SIZE"
  proof -
    have "c \<in> set (drop 50 ?q)" by (simp add: d50)
    then have "c \<in> set ?q" by (rule in_set_dropD)
    then show ?thesis using chunks by simp
  qed
  have "drop 1 (drop 50 ?q) = drop 51 ?q"
    by simp
  then have r51: "r = drop 51 ?q"
    by (simp add: d50)
  have "take (50 + 1) ?q = take 50 ?q @ take 1 (drop 50 ?q)"
    by (rule take_add)
  then have t51: "take 51 ?q = take 50 ?q @ [c]"
    by (simp add: d50)
  have rate8000: "8000 \<le> sampleRate s"
    using rate by (simp add: burstPackets_50)
  have na: "\<not> tooFarAhead t2 ?s1"
    using rate8000 clock by (intro not_ahead_after_burst) (simp_all add: b)
  have "processQueue t1 t2 s = pace t2 ?s1"
    using processQueue_cold_burst [of s t1 t2] live conn cold rate len ne by simp
  also have "\<dots> = ?s1\<lparr>audioQueue := r,
       socket := (socket ?s1)\<lparr>written := written (socket ?s1) @ [?F c]\<rparr>,
       totalBytesSent := totalBytesSent ?s1 + length c,
       timers := timers ?s1 @ [ProcessQueueImmediate]\<rparr>"
    using na d50 live by (intro pace_sends) (simp_all add: b)
  also have "\<dots> = s\<lparr>audioQueue := drop 51 ?q,
       socket := (socket s)\<lparr>written := written (socket s) @ map ?F (take 51 ?q)\<rparr>,
       totalBytesSent := 51 * CHUNK_SIZE,
       startTime := t1,
       isThrottling := True,
       timers := timers s @ [ProcessQueueImmediate]\<rparr>"
    by (simp add: b r51 t51 c320) (simp add: CHUNK_SIZE_def)
  finally show ?thesis .
qed

lemma isThrottling_False_same: "\<not> isThrottling s \<Longrightarrow> s\<lparr>isThrottling := False\<rparr> = s"
  by (cases s) simp

lemma enqueue_connected_throttling:
  assumes "isConnected s" and "isThrottling s"
  shows "enqueue t1 t2 c s = s\<lparr>audioQueue := audioQueue s @ [c]\<rparr>"
  using assms by (simp add: enqueue_def Buffer_from_def Let_def)

lemma enqueue_connected_idle:
  assumes "isConnected s" and "\<not> isThrottling s"
  shows "enqueue t1 t2 c s = processQueue t1 t2 (s\<lparr>audioQueue := audioQueue s @ [c]\<rparr>)"
  using assms by (simp add: enqueue_def Buffer_from_def Let_def)

lemma enqueue_disconnected:
  assumes "\<not> isConnected s"
  shows "enqueue t1 t2 c s =
     s\<lparr>audioQueue := (if 50000 < length (audioQueue s) + 1 then tl (audioQueue s @ [c])
                       else audioQueue s @ [c])\<rparr>"
  using assms by (simp add: enqueue_def Buffer_from_def Let_def shift_def split: list.splits)

lemma enqueue_all_throttling:
  assumes "isConnected s" and "isThrottling s"
  shows "enqueue_all xs s = s\<lparr>audioQueue := audioQueue s @ map fst xs\<rparr>"
  using assms
proof (induction xs arbitrary: s)
  case Nil
  then show ?case by simp
next
  case (Cons x xs)
  obtain c t1 t2 where x: "x = (c, t1, t2)" by (cases x) auto
  show ?case
    using Cons.prems by (simp add: x enqueue_connected_throttling Cons.IH)
qed

lemma enqueue_all_cold:
  assumes "isConnected s" and "\<not> isThrottling s" and "\<not> destroyed (socket s)"
    and "startTime s = 0"
    and "int (length (audioQueue s) + length xs) \<le> burstPackets (sampleRate s)"
  shows "enqueue_all xs s = s\<lparr>audioQueue := audioQueue s @ map fst xs\<rparr>"
  using assms
proof (induction xs arbitrary: s)
  case Nil
  then show ?case by simp
next
  case (Cons x xs)
  obtain c t1 t2 where x: "x = (c, t1, t2)" by (cases x) auto
  let ?s1 = "s\<lparr>audioQueue := audioQueue s @ [c]\<rparr>"
  have "enqueue t1 t2 c s = processQueue t1 t2 ?s1"
    using Cons.prems by (simp add: enqueue_connected_idle)
  also have "\<dots> = ?s1\<lparr>isThrottling := False\<rparr>"
    using Cons.prems by (intro processQueue_cold_wait) simp_all
  also have "\<dots> = ?s1"
    using Cons.prems by (intro isThrottling_False_same) simp
  finally have e: "enqueue t1 t2 c s = ?s1" .
  have "enqueue_all xs ?s1 = ?s1\<lparr>audioQueue := audioQueue ?s1 @ map fst xs\<rparr>"
    using Cons.prems by (intro Cons.IH) simp_all
  then show ?case
    by (simp add: x e)
qed

lemma fire_processQueue:
  assumes "timers s = ProcessQueueImmediate # ts \<or> timers s = ProcessQueueTimeout d # ts"
  shows "fire 0 t1 t2 s = processQueue t1 t2 (s\<lparr>timers := ts\<rparr>)"
  using assms by (auto simp: fire_def)

lemma fire_none: "timers s = [] \<Longrightarrow> fire n t1 t2 s = s"
  by (simp add: fire_def)

lemma drain_sends_all:
  assumes "isConnected s" and "\<not> destroyed (socket s)" and "\<not> writeThrows (socket s)"
    and "startTime s \<noteq> 0" and "8000 \<le> sampleRate s"
    and "timers s = [ProcessQueueImmediate]"
    and "\<forall>c\<in>set (audioQueue s). length c = CHUNK_SIZE"
    and "totalBytesSent s + CHUNK_SIZE * length (audioQueue s) \<le> 32000"
    and "length ticks = length (audioQueue s) + 1"
    and "\<forall>(t1, t2)\<in>set ticks. startTime s \<le> t2"
  shows "drain ticks s =
     s\<lparr>audioQueue := [],
       socket := (socket s)\<lparr>written := written (socket s) @
         map (\<lambda>c. Bytes (rtsp_frame [0x24, 0x02, 0x4C, 0x01] c)) (audioQueue s)\<rparr>,
       totalBytesSent := totalBytesSent s + CHUNK_SIZE * length (audioQueue s),
       isThrottling := False,
       timers := []\<rparr>"
  using assms
proof (induction ticks arbitrary: s)
  case Nil
  then show ?case by simp
next
  case (Cons tk ticks)
  obtain t1 t2 where tk: "tk = (t1, t2)" by (cases tk) auto
  let ?F = "\<lambda>c. Bytes (rtsp_frame [0x24, 0x02, 0x4C, 0x01] c)"
  have f: "fire 0 t1 t2 s = processQueue t1 t2 (s\<lparr>timers := []\<rparr>)"
    using Cons.prems(6) by (simp add: fire_processQueue)
  show ?case
  proof (cases "audioQueue s")
    case Nil
    then have "ticks = []" using Cons.prems(9) by simp
    moreover have "processQueue t1 t2 (s\<lparr>timers := []\<rparr>) = s\<lparr>timers := [], isThrottling := False\<rparr>"
      using Cons.prems Nil by (simp add: processQueue_empty)
    ultimately show ?thesis
      using Nil by (simp add: tk f)
  next
    case (Cons c r)
    let ?s0 = "s\<lparr>timers := [], isThrottling := True\<rparr>"
    have na: "\<not> tooFarAhead t2 ?s0"
      using Cons.prems \<open>8000 \<le> sampleRate s\<close>
      by (intro not_ahead_after_burst) (simp_all add: tk)
    have "processQueue t1 t2 (s\<lparr>timers := []\<rparr>) = pace t2 ?s0"
      using Cons.prems Cons by (simp add: processQueue_steady)
    also have "\<dots> = ?s0\<lparr>audioQueue := r,
         socket := (socket ?s0)\<lparr>written := written (socket ?s0) @ [?F c]\<rparr>,
         totalBytesSent := totalBytesSent ?s0 + length c,
         timers := timers ?s0 @ [ProcessQueueImmediate]\<rparr>"
      using na Cons Cons.prems by (intro pace_sends) simp_all
    finally have p: "fire 0 t1 t2 s = s\<lparr>isThrottling := True, audioQueue := r,
         socket := (socket s)\<lparr>written := written (socket s) @ [?F c]\<rparr>,
         totalBytesSent := totalBytesSent s + length c,
         timers := [ProcessQueueImmediate]\<rparr>" (is "_ = ?s1")
      by (simp add: f)
    have c320: "length c = CHUNK_SIZE"
      using Cons.prems(7) Cons by simp
    have "drain ticks ?s1 =
       ?s1\<lparr>audioQueue := [],
         socket := (socket ?s1)\<lparr>written := written (socket ?s1) @ map ?F (audioQueue ?s1)\<rparr>,
         totalBytesSent := totalBytesSent ?s1 + CHUNK_SIZE * length (audioQueue ?s1),
         isThrottling := False,
         timers := []\<rparr>"
      using Cons.prems Cons c320 by (intro Cons.IH) (auto simp: tk)
    then show ?thesis
      by (simp add: tk p Cons c320)
  qed
qed

lemma enqueue_all_append: "enqueue_all (xs @ ys) s = enqueue_all ys (enqueue_all xs s)"
  by (induction xs arbitrary: s) auto

lemma enqueue_all_burst:
  assumes live: "\<not> destroyed (socket s)" "\<not> writeThrows (socket s)"
    and conn: "isConnected s"
    and fresh: "startTime s = 0" "totalBytesSent s = 0" "audioQueue s = []" "\<not> isThrottling s"
    and rate: "burstPackets (sampleRate s) = 50"
    and pre: "length pre = 50" "\<forall>x\<in>set pre. length (fst x) = CHUNK_SIZE"
    and c: "length c = CHUNK_SIZE"
    and clock: "t1 \<le> t2"
  shows "enqueue_all (pre @ (c, t1, t2) # post) s =
     s\<lparr>audioQueue := map fst post,
       socket := (socket s)\<lparr>written := written (socket s) @
         map (\<lambda>c. Bytes (rtsp_frame [0x24, 0x02, 0x4C, 0x01] c)) (map fst pre @ [c])\<rparr>,
       totalBytesSent := 51 * CHUNK_SIZE,
       startTime := t1,
       isThrottling := True,
       timers := timers s @ [ProcessQueueImmediate]\<rparr>"
proof -
  let ?F = "\<lambda>c. Bytes (rtsp_frame [0x24, 0x02, 0x4C, 0x01] c)"
  let ?s50 = "s\<lparr>audioQueue := map fst pre\<rparr>"
  let ?s51 = "?s50\<lparr>audioQueue := audioQueue ?s50 @ [c]\<rparr>"
  have a: "enqueue_all pre s = ?s50"
    using enqueue_all_cold [of s pre] live conn fresh rate pre by simp
  have "enqueue t1 t2 c ?s50 = processQueue t1 t2 ?s51"
    using conn fresh by (intro enqueue_connected_idle) simp_all
  also have "\<dots> = ?s51\<lparr>audioQueue := drop 51 (audioQueue ?s51),
       socket := (socket ?s51)\<lparr>written := written (socket ?s51) @
         map ?F (take 51 (audioQueue ?s51))\<rparr>,
       totalBytesSent := 51 * CHUNK_SIZE,
       startTime := t1,
       isThrottling := True,
       timers := timers ?s51 @ [ProcessQueueImmediate]\<rparr>"
    using live conn fresh rate pre c clock
    by (intro cold_cycle_burst_and_one) auto
  finally have b: "enqueue t1 t2 c ?s50 =
     s\<lparr>audioQueue := [],
       socket := (socket s)\<lparr>written := written (socket s) @ map ?F (map fst pre @ [c])\<rparr>,
       totalBytesSent := 51 * CHUNK_SIZE,
       startTime := t1,
       isThrottling := True,
       timers := timers s @ [ProcessQueueImmediate]\<rparr>" (is "_ = ?sb")
    using pre by simp
  have "enqueue_all post ?sb = ?sb\<lparr>audioQueue := audioQueue ?sb @ map fst post\<rparr>"
    using conn by (intro enqueue_all_throttling) simp_all
  then show ?thesis
    by (simp add: enqueue_all_append a b)
qed

lemma accepted0_accepted: "isHandshakeAccepted accepted0"
  by (simp add: isHandshakeAccepted_def accepted0_def)

lemma camera0_fields:
  "ip camera0 = ''192.168.1.100''" "port camera0 = 554" "sampleRate camera0 = 8000"
  "audioQueue camera0 = []" "startTime camera0 = 0" "totalBytesSent camera0 = 0"
  "\<not> isThrottling camera0" "\<not> isConnected camera0" "timers camera0 = []"
  "\<not> destroyed (socket camera0)" "\<not> writeThrows (socket camera0)"
  "written (socket camera0) = []"
  by (simp_all add: camera0_def new_CameraClient_def setupSocket_def new_Socket_def)

lemma streaming0_eq:
  "streaming0 = camera0\<lparr>isConnected := True, socket := (socket camera0)\<lparr>timeoutMs := 0\<rparr>\<rparr>"
  by (simp add: streaming0_def on_data_def accepted0_accepted camera0_fields Let_def)

lemma streaming0_fields:
  "sampleRate streaming0 = 8000"
  "audioQueue streaming0 = []" "startTime streaming0 = 0" "totalBytesSent streaming0 = 0"
  "\<not> isThrottling streaming0" "isConnected streaming0" "timers streaming0 = []"
  "\<not> destroyed (socket streaming0)" "\<not> writeThrows (socket streaming0)"
  "written (socket streaming0) = []"
  by (simp_all add: streaming0_eq camera0_fields)

lemma chunk0_length: "length chunk0 = CHUNK_SIZE"
  by (simp add: chunk0_def CHUNK_SIZE_def)

lemma burstPackets_8000: "burstPackets 8000 = 50"
  by (simp add: burstPackets_def CHUNK_SIZE_def)

text \<open>
  Claim C3, as amended. In a cold-start drain cycle (\<open>startTime\<close> unset, nothing sent yet)
  of a connected client with a burst size of 50: if the queue holds at most 50 chunks, no
  chunk is dequeued and \<open>startTime\<close> stays unset. If the queue holds more than 50 chunks,
  the burst loop dequeues and sends exactly the first 50 chunks back to back and
  \<open>startTime\<close> becomes set; the same call then goes on to the steady-state step, which is
  not throttled (one second of audio is ahead, the clock has not gone backwards) and
  dequeues and sends one more chunk, so 51 chunks leave the queue in that cycle.
\<close>

theorem processQueue_cold_start:
  assumes live: "\<not> destroyed (socket s)" "\<not> writeThrows (socket s)"
    and conn: "isConnected s"
    and cold: "startTime s = 0" "totalBytesSent s = 0"
    and rate: "burstPackets (sampleRate s) = 50"
    and chunks: "\<forall>c\<in>set (audioQueue s). length c = CHUNK_SIZE"
    and clock: "t1 \<noteq> 0" "t1 \<le> t2"
  shows "(length (audioQueue s) \<le> 50 \<longrightarrow>
            processQueue t1 t2 s = s\<lparr>isThrottling := False\<rparr>) \<and>
         (50 < length (audioQueue s) \<longrightarrow>
            burst (nat (burstPackets (sampleRate s))) (s\<lparr>isThrottling := True\<rparr>) =
              s\<lparr>isThrottling := True,
                audioQueue := drop 50 (audioQueue s),
                socket := (socket s)\<lparr>written := written (socket s) @
                  map (\<lambda>c. Bytes (rtsp_frame [0x24, 0x02, 0x4C, 0x01] c))
                    (take 50 (audioQueue s))\<rparr>,
                totalBytesSent := 50 * CHUNK_SIZE\<rparr> \<and>
            processQueue t1 t2 s =
              s\<lparr>audioQueue := drop 51 (audioQueue s),
                socket := (socket s)\<lparr>written := written (socket s) @
                  map (\<lambda>c. Bytes (rtsp_frame [0x24, 0x02, 0x4C, 0x01] c))
                    (take 51 (audioQueue s))\<rparr>,
                totalBytesSent := 51 * CHUNK_SIZE,
                startTime := t1,
                isThrottling := True,
                timers := timers s @ [ProcessQueueImmediate]\<rparr> \<and>
            startTime (processQueue t1 t2 s) \<noteq> 0)"
proof (intro conjI impI)
  assume "length (audioQueue s) \<le> 50"
  then show "processQueue t1 t2 s = s\<lparr>isThrottling := False\<rparr>"
    using live conn cold rate by (intro processQueue_cold_wait) simp_all
next
  assume len: "50 < length (audioQueue s)"
  have t50: "\<forall>c\<in>set (take 50 (audioQueue s)). length c = CHUNK_SIZE"
    using chunks by (auto dest: in_set_takeD)
  have sum50: "sum_list (map length (take 50 (audioQueue s))) = 50 * CHUNK_SIZE"
    using sum_list_lengths [OF t50] len by simp
  show "burst (nat (burstPackets (sampleRate s))) (s\<lparr>isThrottling := True\<rparr>) =
      s\<lparr>isThrottling := True,
        audioQueue := drop 50 (audioQueue s),
        socket := (socket s)\<lparr>written := written (socket s) @
          map (\<lambda>c. Bytes (rtsp_frame [0x24, 0x02, 0x4C, 0x01] c)) (take 50 (audioQueue s))\<rparr>,
        totalBytesSent := 50 * CHUNK_SIZE\<rparr>"
    using burst_sends [of 50 "s\<lparr>isThrottling := True\<rparr>"] live len cold
    by (simp add: rate sum50)
  show c: "processQueue t1 t2 s =
      s\<lparr>audioQueue := drop 51 (audioQueue s),
        socket := (socket s)\<lparr>written := written (socket s) @
          map (\<lambda>c. Bytes (rtsp_frame [0x24, 0x02, 0x4C, 0x01] c)) (take 51 (audioQueue s))\<rparr>,
        totalBytesSent := 51 * CHUNK_SIZE,
        startTime := t1,
        isThrottling := True,
        timers := timers s @ [ProcessQueueImmediate]\<rparr>"
    using live conn cold rate len chunks clock(2) by (rule cold_cycle_burst_and_one)
  show "startTime (processQueue t1 t2 s) \<noteq> 0"
    using clock(1) by (simp add: c)
qed

theorem processQueue_cold_start_witness:
  "processQueue clock0 clock0 (streaming0\<lparr>audioQueue := replicate 49 chunk0\<rparr>) =
     streaming0\<lparr>audioQueue := replicate 49 chunk0\<rparr> \<and>
   audioQueue (processQueue clock0 clock0 (streaming0\<lparr>audioQueue := replicate 51 chunk0\<rparr>)) = [] \<and>
   length (written (socket (processQueue clock0 clock0
     (streaming0\<lparr>audioQueue := replicate 51 chunk0\<rparr>)))) = 51 \<and>
   startTime (processQueue clock0 clock0 (streaming0\<lparr>audioQueue := replicate 51 chunk0\<rparr>)) = clock0"
proof -
  have c: "clock0 \<noteq> 0" "clock0 \<le> clock0"
    by (simp_all add: clock0_def)
  have a: "processQueue clock0 clock0 (streaming0\<lparr>audioQueue := replicate 49 chunk0\<rparr>) =
      streaming0\<lparr>audioQueue := replicate 49 chunk0\<rparr>"
    using processQueue_cold_start [of "streaming0\<lparr>audioQueue := replicate 49 chunk0\<rparr>" clock0 clock0] c
    by (simp add: streaming0_fields burstPackets_8000 chunk0_length isThrottling_False_same)
  have b: "processQueue clock0 clock0 (streaming0\<lparr>audioQueue := replicate 51 chunk0\<rparr>) =
      streaming0\<lparr>audioQueue := [],
        socket := (socket streaming0)\<lparr>written :=
          map (\<lambda>c. Bytes (rtsp_frame [0x24, 0x02, 0x4C, 0x01] c)) (replicate 51 chunk0)\<rparr>,
        totalBytesSent := 51 * CHUNK_SIZE,
        startTime := clock0,
        isThrottling := True,
        timers := [ProcessQueueImmediate]\<rparr>"
    using processQueue_cold_start [of "streaming0\<lparr>audioQueue := replicate 51 chunk0\<rparr>" clock0 clock0] c
    by (simp add: streaming0_fields burstPackets_8000 chunk0_length)
  show ?thesis
    by (simp add: a b)
qed

text \<open>The claim as stated (exactly 50 chunks dequeued in that cycle) fails on a queue of
  51 chunks: the cycle leaves the queue empty and hands 51 frames to the socket.\<close>

theorem processQueue_cold_start_counterexample:
  "startTime (streaming0\<lparr>audioQueue := replicate 51 chunk0\<rparr>) = 0 \<and>
   burstPackets (sampleRate (streaming0\<lparr>audioQueue := replicate 51 chunk0\<rparr>)) = 50 \<and>
   length (audioQueue (streaming0\<lparr>audioQueue := replicate 51 chunk0\<rparr>)) = 51 \<and>
   length (audioQueue (processQueue clock0 clock0
     (streaming0\<lparr>audioQueue := replicate 51 chunk0\<rparr>))) = 0 \<and>
   length (written (socket (processQueue clock0 clock0
     (streaming0\<lparr>audioQueue := replicate 51 chunk0\<rparr>)))) = 51"
proof -
  have "processQueue clock0 clock0 (streaming0\<lparr>audioQueue := replicate 51 chunk0\<rparr>) =
      streaming0\<lparr>audioQueue := [],
        socket := (socket streaming0)\<lparr>written :=
          map (\<lambda>c. Bytes (rtsp_frame [0x24, 0x02, 0x4C, 0x01] c)) (replicate 51 chunk0)\<rparr>,
        totalBytesSent := 51 * CHUNK_SIZE,
        startTime := clock0,
        isThrottling := True,
        timers := [ProcessQueueImmediate]\<rparr>"
    using cold_cycle_burst_and_one [of "streaming0\<lparr>audioQueue := replicate 51 chunk0\<rparr>" clock0 clock0]
    by (simp add: streaming0_fields burstPackets_8000 chunk0_length)
  then show ?thesis
    by (simp add: streaming0_fields burstPackets_8000)
qed

text \<open>
  Claim C4. In a steady-state drain cycle (\<open>startTime\<close> set, queue not empty) with
  \<open>SPEED_MULTIPLIER = 1\<close> and \<open>MAX_BUFFER_AHEAD_MS = 2000\<close>, whenever the adjusted audio
  time sent, \<open>(totalBytesSent / bytesPerSecond) * 1000 / SPEED_MULTIPLIER\<close>, exceeds the
  elapsed wall time plus \<open>MAX_BUFFER_AHEAD_MS\<close>, the cycle dequeues and sends nothing: the
  queue, \<open>totalBytesSent\<close> and the socket are unchanged, and a callback is registered
  that runs \<open>processQueue\<close> again after the fixed 10 ms.
\<close>

theorem processQueue_throttled:
  assumes "\<not> destroyed (socket s)" and "isConnected s" and "audioQueue s \<noteq> []"
    and "startTime s \<noteq> 0"
    and "js_gt (audioTimeSentAdjusted (totalBytesSent s) (sampleRate s * 2))
           (Fin (of_int (t2 - startTime s + MAX_BUFFER_AHEAD_MS)))"
  shows "SPEED_MULTIPLIER = 1 \<and> MAX_BUFFER_AHEAD_MS = 2000 \<and>
     processQueue t1 t2 s =
       s\<lparr>isThrottling := True, timers := timers s @ [ProcessQueueTimeout 10]\<rparr> \<and>
     audioQueue (processQueue t1 t2 s) = audioQueue s \<and>
     totalBytesSent (processQueue t1 t2 s) = totalBytesSent s \<and>
     written (socket (processQueue t1 t2 s)) = written (socket s) \<and>
     (\<forall>u1 u2. fire (length (timers s)) u1 u2 (processQueue t1 t2 s) =
        processQueue u1 u2 (s\<lparr>isThrottling := True\<rparr>))"
proof -
  have ahead: "tooFarAhead t2 (s\<lparr>isThrottling := True\<rparr>)"
    using assms(5) by (simp add: tooFarAhead_def Let_def)
  have p: "processQueue t1 t2 s =
      s\<lparr>isThrottling := True, timers := timers s @ [ProcessQueueTimeout 10]\<rparr>"
    using assms(1-4) by (simp add: processQueue_steady pace_throttled [OF ahead])
  have f: "fire (length (timers s)) u1 u2
        (s\<lparr>isThrottling := True, timers := timers s @ [ProcessQueueTimeout 10]\<rparr>) =
      processQueue u1 u2 (s\<lparr>isThrottling := True\<rparr>)" for u1 u2
    by (simp add: fire_def)
  show ?thesis
    by (simp add: p f SPEED_MULTIPLIER_def MAX_BUFFER_AHEAD_MS_def)
qed

theorem processQueue_throttled_witness:
  "processQueue clock0 clock0
     (streaming0\<lparr>audioQueue := [chunk0], startTime := clock0, totalBytesSent := 33600\<rparr>) =
   streaming0\<lparr>audioQueue := [chunk0], startTime := clock0, totalBytesSent := 33600,
     isThrottling := True, timers := [ProcessQueueTimeout 10]\<rparr>"
proof -
  let ?s = "streaming0\<lparr>audioQueue := [chunk0], startTime := clock0, totalBytesSent := 33600\<rparr>"
  have h: "\<not> destroyed (socket ?s)" "isConnected ?s" "audioQueue ?s \<noteq> []" "startTime ?s \<noteq> 0"
    by (simp_all add: streaming0_fields clock0_def)
  have r1: "round_double (21 / 10) = Fin (4728779608739021 / 2251799813685248)"
    by code_simp
  have r2: "round_double (591097451092377625 / 281474976710656) = Fin 2100"
    by code_simp
  have r3: "round_double 2100 = Fin 2100"
    by code_simp
  have a: "audioTimeSentAdjusted 33600 16000 = Fin 2100"
    by (simp add: audioTimeSentAdjusted_def SPEED_MULTIPLIER_def r1 r2 r3)
  have g: "js_gt (audioTimeSentAdjusted (totalBytesSent ?s) (sampleRate ?s * 2))
           (Fin (of_int (clock0 - startTime ?s + MAX_BUFFER_AHEAD_MS)))"
    by (simp add: streaming0_fields a MAX_BUFFER_AHEAD_MS_def)
  from processQueue_throttled [OF h g, of clock0] show ?thesis
    by (simp add: streaming0_fields)
qed

lemma burstPackets_formula: "burstPackets rate = \<lfloor>(of_int rate * 2 / of_nat CHUNK_SIZE :: rat)\<rfloor>"
proof -
  have "(of_int rate * 2 / of_nat CHUNK_SIZE :: rat) = of_int (rate * 2) / of_int (int CHUNK_SIZE)"
    by simp
  then show ?thesis
    unfolding burstPackets_def by (simp only: floor_divide_of_int_eq)
qed

text \<open>
  Claim C1, as amended. For a sample rate of 8000 and a chunk size of 320 the burst size
  is \<open>floor(sampleRate * 2 / CHUNK_SIZE) = 50\<close> chunks (one second of audio; the code has
  no factor \<open>BURST_SECONDS\<close>). Feeding exactly 100 chunks to a fresh streaming client:
  the first 50 chunks are only queued; the 51st triggers the burst of the first 50
  chunks, followed in the same call by one more chunk; the other 49 chunks are sent one
  per drain cycle, each rescheduled at once; so all 100 chunks are sent, in order, after
  which the pacer is idle and no callback is pending: no further chunk is sent until more
  data is enqueued.
\<close>

theorem feeding_100_chunks:
  assumes live: "\<not> destroyed (socket s)" "\<not> writeThrows (socket s)"
    and conn: "isConnected s"
    and fresh: "startTime s = 0" "totalBytesSent s = 0" "audioQueue s = []"
      "\<not> isThrottling s" "timers s = []"
    and rate: "sampleRate s = 8000"
    and feed: "length pre = 50" "length post = 49"
      "\<forall>x\<in>set (pre @ (c, T, T2) # post). length (fst x) = CHUNK_SIZE"
    and clock: "T \<noteq> 0" "T \<le> T2"
    and ticks: "length ticks = 50" "\<forall>(u1, u2)\<in>set ticks. T \<le> u2"
  shows "burstPackets (sampleRate s) = \<lfloor>(of_int (sampleRate s) * 2 / of_nat CHUNK_SIZE :: rat)\<rfloor> \<and>
     burstPackets (sampleRate s) = 50 \<and>
     enqueue_all pre s = s\<lparr>audioQueue := map fst pre\<rparr> \<and>
     enqueue_all (pre @ [(c, T, T2)]) s =
       s\<lparr>audioQueue := [],
         socket := (socket s)\<lparr>written := written (socket s) @
           map (\<lambda>c. Bytes (rtsp_frame [0x24, 0x02, 0x4C, 0x01] c)) (map fst pre @ [c])\<rparr>,
         totalBytesSent := 51 * CHUNK_SIZE,
         startTime := T,
         isThrottling := True,
         timers := [ProcessQueueImmediate]\<rparr> \<and>
     drain ticks (enqueue_all (pre @ (c, T, T2) # post) s) =
       s\<lparr>audioQueue := [],
         socket := (socket s)\<lparr>written := written (socket s) @
           map (\<lambda>c. Bytes (rtsp_frame [0x24, 0x02, 0x4C, 0x01] c))
             (map fst (pre @ (c, T, T2) # post))\<rparr>,
         totalBytesSent := 100 * CHUNK_SIZE,
         startTime := T,
         isThrottling := False,
         timers := []\<rparr> \<and>
     (\<forall>n u1 u2. fire n u1 u2 (drain ticks (enqueue_all (pre @ (c, T, T2) # post) s)) =
        drain ticks (enqueue_all (pre @ (c, T, T2) # post) s))"
proof -
  let ?F = "\<lambda>c. Bytes (rtsp_frame [0x24, 0x02, 0x4C, 0x01] c)"
  have b50: "burstPackets (sampleRate s) = 50"
    by (simp add: rate burstPackets_8000)
  have pre320: "\<forall>x\<in>set pre. length (fst x) = CHUNK_SIZE"
    and c320: "length c = CHUNK_SIZE"
    and post320: "\<forall>x\<in>set post. length (fst x) = CHUNK_SIZE"
    using feed(3) by auto
  have a: "enqueue_all pre s = s\<lparr>audioQueue := map fst pre\<rparr>"
    using enqueue_all_cold [of s pre] live conn fresh b50 feed(1) by simp
  have b: "enqueue_all (pre @ (c, T, T2) # post') s =
       s\<lparr>audioQueue := map fst post',
         socket := (socket s)\<lparr>written := written (socket s) @ map ?F (map fst pre @ [c])\<rparr>,
         totalBytesSent := 51 * CHUNK_SIZE,
         startTime := T,
         isThrottling := True,
         timers := [ProcessQueueImmediate]\<rparr>" for post'
    using enqueue_all_burst [OF live conn fresh(1-4) b50 feed(1) pre320 c320 clock(2), of post']
    by (simp add: fresh)
  let ?fed = "enqueue_all (pre @ (c, T, T2) # post) s"
  have d: "drain ticks ?fed =
       ?fed\<lparr>audioQueue := [],
         socket := (socket ?fed)\<lparr>written := written (socket ?fed) @ map ?F (audioQueue ?fed)\<rparr>,
         totalBytesSent := totalBytesSent ?fed + CHUNK_SIZE * length (audioQueue ?fed),
         isThrottling := False,
         timers := []\<rparr>"
    using live conn clock(1) rate post320 feed(2) ticks
    by (intro drain_sends_all) (simp_all add: b CHUNK_SIZE_def)
  have e: "drain ticks ?fed =
       s\<lparr>audioQueue := [],
         socket := (socket s)\<lparr>written := written (socket s) @
           map ?F (map fst (pre @ (c, T, T2) # post))\<rparr>,
         totalBytesSent := 100 * CHUNK_SIZE,
         startTime := T,
         isThrottling := False,
         timers := []\<rparr>"
    unfolding d by (simp add: b feed(2) CHUNK_SIZE_def)
  have f: "fire n u1 u2 (drain ticks ?fed) = drain ticks ?fed" for n u1 u2
    by (rule fire_none) (simp add: e)
  show ?thesis
    using burstPackets_formula [of "sampleRate s"] b50 a b [of "[]"] e f by simp
qed

theorem feeding_100_chunks_witness:
  "burstPackets (sampleRate streaming0) = 50 \<and>
   written (socket (enqueue_all (replicate 50 (chunk0, clock0, clock0)) streaming0)) = [] \<and>
   length (written (socket (drain (replicate 50 (clock0, clock0))
     (enqueue_all (replicate 50 (chunk0, clock0, clock0) @ (chunk0, clock0, clock0) #
        replicate 49 (chunk0, clock0, clock0)) streaming0)))) = 100 \<and>
   audioQueue (drain (replicate 50 (clock0, clock0))
     (enqueue_all (replicate 50 (chunk0, clock0, clock0) @ (chunk0, clock0, clock0) #
        replicate 49 (chunk0, clock0, clock0)) streaming0)) = []"
proof -
  have c: "clock0 \<noteq> 0" "clock0 \<le> clock0"
    by (simp_all add: clock0_def)
  have h: "\<forall>x\<in>set (replicate 50 (chunk0, clock0, clock0) @ (chunk0, clock0, clock0) #
        replicate 49 (chunk0, clock0, clock0)). length (fst x) = CHUNK_SIZE"
    by (auto simp: chunk0_length)
  have t: "\<forall>(u1, u2)\<in>set (replicate 50 (clock0, clock0)). clock0 \<le> u2"
    by simp
  from feeding_100_chunks [OF streaming0_fields(8,9,6,3,4,2,5,7,1) _ _ h c _ t]
  show ?thesis
    by (simp add: streaming0_fields)
qed

text \<open>The claim as stated fails: the burst size for 8000 Hz is 50, not 100; 50 chunks
  alone trigger nothing; and after 100 chunks are fed, 51 frames have been sent at once,
  not 100.\<close>

theorem feeding_100_chunks_counterexample:
  "burstPackets 8000 = 50 \<and>
   sampleRate streaming0 = 8000 \<and>
   written (socket (enqueue_all (replicate 50 (chunk0, clock0, clock0)) streaming0)) = [] \<and>
   length (written (socket (enqueue_all (replicate 50 (chunk0, clock0, clock0) @
     (chunk0, clock0, clock0) # replicate 49 (chunk0, clock0, clock0)) streaming0))) = 51 \<and>
   length (audioQueue (enqueue_all (replicate 50 (chunk0, clock0, clock0) @
     (chunk0, clock0, clock0) # replicate 49 (chunk0, clock0, clock0)) streaming0)) = 49"
proof -
  have a: "enqueue_all (replicate 50 (chunk0, clock0, clock0)) streaming0 =
      streaming0\<lparr>audioQueue := audioQueue streaming0 @ map fst (replicate 50 (chunk0, clock0, clock0))\<rparr>"
    by (intro enqueue_all_cold) (simp_all add: streaming0_fields burstPackets_8000)
  have b: "enqueue_all (replicate 50 (chunk0, clock0, clock0) @
     (chunk0, clock0, clock0) # replicate 49 (chunk0, clock0, clock0)) streaming0 =
     streaming0\<lparr>audioQueue := map fst (replicate 49 (chunk0, clock0, clock0)),
       socket := (socket streaming0)\<lparr>written := written (socket streaming0) @
         map (\<lambda>c. Bytes (rtsp_frame [0x24, 0x02, 0x4C, 0x01] c))
           (map fst (replicate 50 (chunk0, clock0, clock0)) @ [chunk0])\<rparr>,
       totalBytesSent := 51 * CHUNK_SIZE,
       startTime := clock0,
       isThrottling := True,
       timers := timers streaming0 @ [ProcessQueueImmediate]\<rparr>"
    by (intro enqueue_all_burst) (simp_all add: streaming0_fields burstPackets_8000 chunk0_length)
  show ?thesis
    by (simp add: a b streaming0_fields burstPackets_8000)
qed

section \<open>The accounting invariant\<close>

lemma sent_frames_append: "sent_frames (a @ b) = sent_frames a @ sent_frames b"
  by (induction a rule: sent_frames.induct) auto

lemma rtsp_frame_length: "length (rtsp_frame [0x24, 0x02, 0x4C, 0x01] c) = 4 + 12 + length c"
  by (simp add: rtsp_frame_layout)

lemma sendRtspFrame_cases:
  "sendRtspFrame chunk s = s \<or>
   (\<exists>c. chunk = Some c \<and> \<not> destroyed (socket s) \<and> \<not> writeThrows (socket s) \<and>
      sendRtspFrame chunk s =
        s\<lparr>socket := (socket s)\<lparr>written := written (socket s) @
             [Bytes (rtsp_frame [0x24, 0x02, 0x4C, 0x01] c)]\<rparr>,
          totalBytesSent := totalBytesSent s + length c\<rparr>)"
proof (cases "destroyed (socket s) \<or> writeThrows (socket s) \<or> chunk = None")
  case True
  then show ?thesis
    using sendRtspFrame_destroyed sendRtspFrame_throws sendRtspFrame_undefined by blast
next
  case False
  then obtain c where "chunk = Some c" by auto
  with False show ?thesis
    by (intro disjI2 exI [of _ c]) (simp add: sendRtspFrame_sent)
qed

lemma sendRtspFrame_accounted:
  assumes "accounted s" and "\<forall>c. chunk = Some c \<longrightarrow> length c = CHUNK_SIZE"
  shows "accounted (sendRtspFrame chunk s)"
  using sendRtspFrame_cases [of chunk s] assms
  by (auto simp: accounted_def sent_frames_append rtsp_frame_length)

lemma sendRtspFrame_frame:
  "audioQueue (sendRtspFrame chunk s) = audioQueue s"
  "isConnected (sendRtspFrame chunk s) = isConnected s"
  "timers (sendRtspFrame chunk s) = timers s"
  using sendRtspFrame_cases [of chunk s] by auto

lemma accounted_queue:
  assumes "accounted s" and "\<forall>c\<in>set q. length c = CHUNK_SIZE"
  shows "accounted (s\<lparr>audioQueue := q\<rparr>)"
  using assms by (simp add: accounted_def)

lemma accounted_other [simp]:
  "accounted (s\<lparr>isThrottling := b\<rparr>) = accounted s"
  "accounted (s\<lparr>isConnected := b\<rparr>) = accounted s"
  "accounted (s\<lparr>startTime := t\<rparr>) = accounted s"
  "accounted (s\<lparr>timers := ts\<rparr>) = accounted s"
  by (simp_all add: accounted_def)

lemma burst_accounted: "accounted s \<Longrightarrow> accounted (burst n s)"
proof (induction n arbitrary: s)
  case 0
  then show ?case by simp
next
  case (Suc n)
  show ?case
  proof (cases "audioQueue s")
    case Nil
    then show ?thesis
      using Suc by (simp add: shift_Nil sendRtspFrame_undefined accounted_queue)
  next
    case (Cons c r)
    have "accounted (s\<lparr>audioQueue := r\<rparr>)" and "length c = CHUNK_SIZE"
      using Suc.prems Cons by (simp_all add: accounted_def)
    then have "accounted (sendRtspFrame (Some c) (s\<lparr>audioQueue := r\<rparr>))"
      by (intro sendRtspFrame_accounted) simp_all
    then show ?thesis
      using Cons by (simp add: shift_Cons Suc.IH)
  qed
qed

lemma pace_accounted: "accounted s \<Longrightarrow> accounted (pace t2 s)"
proof (cases "audioQueue s")
  case Nil
  assume "accounted s"
  then show ?thesis
    using Nil by (simp add: pace_def shift_Nil accounted_queue Let_def)
next
  case (Cons c r)
  assume a: "accounted s"
  then have "accounted (s\<lparr>audioQueue := r\<rparr>)" and "length c = CHUNK_SIZE"
    using Cons by (simp_all add: accounted_def)
  then have "accounted (sendRtspFrame (Some c) (s\<lparr>audioQueue := r\<rparr>))"
    by (intro sendRtspFrame_accounted) simp_all
  then show ?thesis
    using a Cons by (simp add: pace_def shift_Cons Let_def)
qed

lemma processQueue_accounted: "accounted s \<Longrightarrow> accounted (processQueue t1 t2 s)"
  by (simp add: processQueue_def Let_def pace_accounted burst_accounted accounted_queue)

lemma enqueue_accounted:
  assumes "accounted s" and "length c = CHUNK_SIZE"
  shows "accounted (enqueue t1 t2 c s)"
proof -
  have 1: "accounted (s\<lparr>audioQueue := audioQueue s @ [c]\<rparr>)"
    using assms by (simp add: accounted_def)
  have 2: "accounted (s\<lparr>audioQueue := snd (shift (audioQueue s @ [c]))\<rparr>)"
    using assms by (cases "audioQueue s") (simp_all add: accounted_def shift_def)
  show ?thesis
    using 1 2 by (simp add: enqueue_def Let_def Buffer_from_def processQueue_accounted)
qed

lemma forEach_enqueue_accounted:
  assumes "\<forall>s\<in>set clients. accounted s" and "length c = CHUNK_SIZE"
  shows "\<forall>s\<in>set (forEach_enqueue clk c clients). accounted s"
  using assms by (auto simp: forEach_enqueue_def enqueue_accounted dest!: in_set_enumerate_eq [THEN iffD1])

lemma fanout_from_accounted:
  "\<forall>s\<in>set clients. accounted s \<Longrightarrow> \<forall>s\<in>set (fanout_from clk i chunk clients). accounted s"
proof (induction clk i chunk clients rule: fanout_from.induct)
  case (1 clk i chunk clients)
  show ?case
  proof (cases "i < length chunk")
    case False
    then show ?thesis using "1.prems" by (subst fanout_from.simps) simp
  next
    case True
    let ?sub = "slice i (i + CHUNK_SIZE) chunk"
    let ?next = "if length ?sub = CHUNK_SIZE then forEach_enqueue (clk i) ?sub clients else clients"
    have "\<forall>s\<in>set ?next. accounted s"
      using "1.prems" forEach_enqueue_accounted [of clients ?sub "clk i"] by simp
    then have "\<forall>s\<in>set (fanout_from clk (i + CHUNK_SIZE) chunk ?next). accounted s"
      using True by (intro "1.IH") simp_all
    then show ?thesis
      using True by (subst fanout_from.simps) (simp add: Let_def)
  qed
qed

lemma accounted_socket:
  assumes "accounted s" and "sent_frames (written k) = sent_frames (written (socket s))"
  shows "accounted (s\<lparr>socket := k\<rparr>)"
  using assms by (simp add: accounted_def)

lemma socket_write_Text:
  "socket_write (Text t) k = Inr k1 \<Longrightarrow> sent_frames (written k1) = sent_frames (written k)"
  by (auto simp: socket_write_def sent_frames_append split: if_splits)

lemma client_step_accounted:
  assumes "accounted s" and "client_step ev s = Some s1"
  shows "accounted s1"
proof (cases ev)
  case CallConnect
  then show ?thesis using assms by (auto simp: connect_def intro!: accounted_socket)
next
  case CallStop
  then show ?thesis
    using assms
    by (auto simp: stop_def Let_def intro!: accounted_socket dest: socket_write_Text
        split: sum.splits if_splits)
next
  case SocketConnected
  then show ?thesis
    using assms
    by (auto simp: on_connect_def intro!: accounted_socket dest!: socket_write_Text
        split: sum.splits)
next
  case SocketTimeout
  then show ?thesis
    using assms by (auto simp: on_timeout_def socket_destroy_def accounted_def)
next
  case (SocketData t1 t2 inbound)
  have "accounted (s\<lparr>isConnected := True, socket := (socket s)\<lparr>timeoutMs := 0\<rparr>\<rparr>)"
    using assms(1) by (simp add: accounted_def)
  then show ?thesis
    using assms SocketData by (auto simp: on_data_def Let_def processQueue_accounted)
next
  case SocketError
  then show ?thesis using assms by (auto simp: on_error_def)
next
  case SocketClose
  then show ?thesis using assms by (auto simp: on_close_def)
next
  case (TimerFires n t1 t2)
  have "accounted (s\<lparr>timers := ts, socket := socket_destroy (socket s)\<rparr>)" for ts
    using assms(1) by (simp add: accounted_def socket_destroy_def)
  then show ?thesis
    using assms TimerFires
    by (auto simp: fire_def Let_def processQueue_accounted split: timer.splits if_splits)
next
  case (SocketEnvironment d w x)
  then show ?thesis using assms by (auto simp: accounted_def)
qed

lemma new_CameraClient_accounted: "accounted (new_CameraClient addr prt rate)"
  by (simp add: accounted_def new_CameraClient_def setupSocket_def new_Socket_def)

lemma reachable_accounted:
  "clients \<in> reachable prt rate ips \<Longrightarrow> \<forall>s\<in>set clients. accounted s"
proof (induction rule: reachable.induct)
  case start
  then show ?case by (auto simp: new_CameraClient_accounted)
next
  case (stdout_data clients clk chunk)
  show ?case
    unfolding stdout_on_data_def using stdout_data.IH by (rule fanout_from_accounted)
next
  case (client_event clients i ev c)
  then have "accounted c"
    using client_step_accounted [of "clients ! i" ev c] by simp
  then show ?case
    using client_event.IH by (auto dest!: set_update_subset_insert [THEN subsetD])
qed

section \<open>Properties of the fan-out coordinator\<close>

lemma burst_isConnected: "isConnected (burst n s) = isConnected s"
  by (induction n arbitrary: s) (simp_all add: sendRtspFrame_frame split: prod.splits)

lemma pace_isConnected: "isConnected (pace t2 s) = isConnected s"
  by (simp add: pace_def Let_def sendRtspFrame_frame split: prod.splits option.splits)

lemma processQueue_isConnected: "isConnected (processQueue t1 t2 s) = isConnected s"
  by (simp add: processQueue_def Let_def pace_isConnected burst_isConnected)

lemma fanout_from_step:
  assumes "i + CHUNK_SIZE \<le> length chunk"
  shows "fanout_from clk i chunk clients =
     fanout_from clk (i + CHUNK_SIZE) chunk
       (forEach_enqueue (clk i) (take CHUNK_SIZE (drop i chunk)) clients)"
proof -
  have "i < length chunk"
    using assms by (simp add: CHUNK_SIZE_def)
  moreover have "length (slice i (i + CHUNK_SIZE) chunk) = CHUNK_SIZE"
    using assms by (simp add: slice_def)
  ultimately show ?thesis
    by (subst fanout_from.simps) (simp add: Let_def slice_def)
qed

lemma fanout_from_short:
  assumes "length chunk < i + CHUNK_SIZE"
  shows "fanout_from clk i chunk clients = clients"
proof (cases "i < length chunk")
  case False
  then show ?thesis by (subst fanout_from.simps) simp
next
  case True
  have "length (slice i (i + CHUNK_SIZE) chunk) \<noteq> CHUNK_SIZE"
    using assms True by (simp add: slice_def)
  moreover have "fanout_from clk (i + CHUNK_SIZE) chunk clients = clients"
    using assms by (subst fanout_from.simps) simp
  ultimately show ?thesis
    using True by (subst fanout_from.simps) (simp add: Let_def)
qed


lemma forEach_enqueue_one:
  "forEach_enqueue clk c [s] = [enqueue (fst (clk 0)) (snd (clk 0)) c s]"
  by (simp add: forEach_enqueue_def enumerate_simps)





















lemma fanout_one_client:
  assumes "\<forall>x\<in>set xs. length (fst x) = CHUNK_SIZE"
    and "\<forall>k<length xs. clk (length pre + k * CHUNK_SIZE) 0 = snd (xs ! k)"
  shows "fanout_from clk (length pre) (pre @ concat (map fst xs)) [s] = [enqueue_all xs s]"
  using assms
proof (induction xs arbitrary: pre s)
  case Nil
  then show ?case by (simp add: fanout_from_short CHUNK_SIZE_def)
next
  case (Cons x xs)
  obtain c t1 t2 where x: "x = (c, t1, t2)" by (cases x) auto
  have c: "length c = CHUNK_SIZE" using Cons.prems(1) x by simp
  have k0: "clk (length pre) 0 = (t1, t2)"
    using Cons.prems(2) [rule_format, of 0] x by simp
  have step: "fanout_from clk (length pre) (pre @ concat (map fst (x # xs))) [s] =
      fanout_from clk (length pre + CHUNK_SIZE) (pre @ concat (map fst (x # xs)))
        (forEach_enqueue (clk (length pre)) (take CHUNK_SIZE (drop (length pre)
          (pre @ concat (map fst (x # xs))))) [s])"
    by (intro fanout_from_step) (simp add: x c)
  have sub: "take CHUNK_SIZE (drop (length pre) (pre @ concat (map fst (x # xs)))) = c"
    by (simp add: x c)
  have clk': "\<forall>k<length xs. clk (length (pre @ c) + k * CHUNK_SIZE) 0 = snd (xs ! k)"
  proof (intro allI impI)
    fix k assume "k < length xs"
    then show "clk (length (pre @ c) + k * CHUNK_SIZE) 0 = snd (xs ! k)"
      using Cons.prems(2) [rule_format, of "Suc k"] by (simp add: c add.assoc)
  qed
  have ih: "fanout_from clk (length (pre @ c)) ((pre @ c) @ concat (map fst xs))
       [enqueue t1 t2 c s] = [enqueue_all xs (enqueue t1 t2 c s)]"
    using Cons.prems(1) clk' by (intro Cons.IH) simp_all
  show ?case
    unfolding step sub using ih by (simp add: forEach_enqueue_one k0 x c)
qed

section \<open>Properties of the control protocol\<close>

lemma str_includes_sublist: "str_includes s needle \<longleftrightarrow> sublist needle s"
  by (induction s) (simp_all add: sublist_Cons_right)

text \<open>
  Claim C8. The handshake test of the \<open>'data'\<close> handler, with the opening \<open>CSeq\<close> 8,
  is true if and only if the inbound text contains the substring \<open>CSeq: 8\<close>; it is false
  for a reply that contains \<open>CSeq: 10\<close> and no \<open>CSeq: 8\<close>. The handler marks the
  session connected exactly on acceptance and otherwise leaves it as it is.
\<close>

theorem isHandshakeAccepted_iff:
  "(isHandshakeAccepted inbound \<longleftrightarrow> (\<exists>pre post. inbound = pre @ ''CSeq: 8'' @ post)) \<and>
   str_includes closing0 ''CSeq: 10'' \<and> \<not> isHandshakeAccepted closing0 \<and>
   (isHandshakeAccepted inbound \<longrightarrow> isConnected (on_data t1 t2 inbound s)) \<and>
   (\<not> isHandshakeAccepted inbound \<longrightarrow> on_data t1 t2 inbound s = s)"
proof -
  have a: "isHandshakeAccepted inbound \<longleftrightarrow> (\<exists>pre post. inbound = pre @ ''CSeq: 8'' @ post)"
    unfolding isHandshakeAccepted_def str_includes_sublist sublist_def ..
  have b: "str_includes closing0 ''CSeq: 10''"
    by (simp add: closing0_def)
  have c: "\<not> isHandshakeAccepted closing0"
    by (simp add: isHandshakeAccepted_def closing0_def)
  have d: "isHandshakeAccepted inbound \<longrightarrow> isConnected (on_data t1 t2 inbound s)"
    by (simp add: on_data_def Let_def processQueue_isConnected)
  have e: "\<not> isHandshakeAccepted inbound \<longrightarrow> on_data t1 t2 inbound s = s"
    by (simp add: on_data_def)
  show ?thesis
    using a b c d e by blast
qed

theorem isHandshakeAccepted_iff_witness:
  "isHandshakeAccepted accepted0 \<and> isConnected (on_data clock0 clock0 accepted0 camera0) \<and>
   \<not> isHandshakeAccepted closing0 \<and> on_data clock0 clock0 closing0 camera0 = camera0"
  using isHandshakeAccepted_iff [of accepted0 clock0 clock0 camera0]
    isHandshakeAccepted_iff [of closing0 clock0 clock0 camera0] accepted0_accepted
  by blast

text \<open>
  The OPEN command of \<open>CameraClient.connect\<close> has the form the README documents: the
  first line names \<open>/onvif1\<close>, the body holds the literal \<open>Content-length\<close> line and the
  \<open>Content-type\<close> line, and a blank line ends it.
\<close>

lemma openCmd_conforms:
  "prefix (''USER_CMD_SET rtsp://'' @ addr @ ''/onvif1 RTSP/1.0'' @ [CHR 0x0D, CHR 0x0A]) (openCmd addr) \<and>
   sublist ''Content-length: strlen(Content-type)'' (openCmd addr) \<and>
   sublist ''Content-type: AudioCtlCmd:OPEN'' (openCmd addr) \<and>
   suffix [CHR 0x0D, CHR 0x0A, CHR 0x0D, CHR 0x0A] (openCmd addr)"
proof (intro conjI)
  show "prefix (''USER_CMD_SET rtsp://'' @ addr @ ''/onvif1 RTSP/1.0'' @ [CHR 0x0D, CHR 0x0A]) (openCmd addr)"
    unfolding prefix_def openCmd_def
    by (intro exI [of _ "''CSeq: 8'' @ [CHR 0x0D, CHR 0x0A] @
       ''Content-length: strlen(Content-type)'' @ [CHR 0x0D, CHR 0x0A] @
       ''Content-type: AudioCtlCmd:OPEN'' @ [CHR 0x0D, CHR 0x0A, CHR 0x0D, CHR 0x0A]"]) simp
  show "sublist ''Content-length: strlen(Content-type)'' (openCmd addr)"
    unfolding sublist_def openCmd_def
    by (intro exI [of _ "''USER_CMD_SET rtsp://'' @ addr @ ''/onvif1 RTSP/1.0'' @
         [CHR 0x0D, CHR 0x0A] @ ''CSeq: 8'' @ [CHR 0x0D, CHR 0x0A]"]
        exI [of _ "[CHR 0x0D, CHR 0x0A] @
         ''Content-type: AudioCtlCmd:OPEN'' @ [CHR 0x0D, CHR 0x0A, CHR 0x0D, CHR 0x0A]"]) simp
  show "sublist ''Content-type: AudioCtlCmd:OPEN'' (openCmd addr)"
    unfolding sublist_def openCmd_def
    by (intro exI [of _ "''USER_CMD_SET rtsp://'' @ addr @ ''/onvif1 RTSP/1.0'' @
         [CHR 0x0D, CHR 0x0A] @ ''CSeq: 8'' @ [CHR 0x0D, CHR 0x0A] @
         ''Content-length: strlen(Content-type)'' @ [CHR 0x0D, CHR 0x0A]"]
        exI [of _ "[CHR 0x0D, CHR 0x0A, CHR 0x0D, CHR 0x0A]"]) simp
  show "suffix [CHR 0x0D, CHR 0x0A, CHR 0x0D, CHR 0x0A] (openCmd addr)"
    unfolding suffix_def openCmd_def
    by (intro exI [of _ "''USER_CMD_SET rtsp://'' @ addr @ ''/onvif1 RTSP/1.0'' @
         [CHR 0x0D, CHR 0x0A] @ ''CSeq: 8'' @ [CHR 0x0D, CHR 0x0A] @
         ''Content-length: strlen(Content-type)'' @ [CHR 0x0D, CHR 0x0A] @
         ''Content-type: AudioCtlCmd:OPEN''"]) simp
qed

text \<open>
  Claim C7 fails on the single-camera script \<open>intercom.js\<close>: the first line of its OPEN
  command names \<open>/onvif0\<close>, where its own CLOSE command, the README and
  \<open>CameraClient.connect\<close> name \<open>/onvif1\<close>.
\<close>

theorem openCmd_single_first_line:
  "openCmd_single ''192.168.1.100'' =
     ''USER_CMD_SET rtsp://192.168.1.100/onvif0 RTSP/1.0'' @ [CHR 0x0D, CHR 0x0A] @
     ''CSeq: 8'' @ [CHR 0x0D, CHR 0x0A] @
     ''Content-length: strlen(Content-type)'' @ [CHR 0x0D, CHR 0x0A] @
     ''Content-type: AudioCtlCmd:OPEN'' @ [CHR 0x0D, CHR 0x0A, CHR 0x0D, CHR 0x0A] \<and>
   \<not> prefix (''USER_CMD_SET rtsp://192.168.1.100/onvif1 RTSP/1.0'' @ [CHR 0x0D, CHR 0x0A])
     (openCmd_single ''192.168.1.100'')"
  by (simp add: openCmd_single_def)

section \<open>Properties of \<open>enqueue\<close>\<close>

lemma enqueue_all_disconnected:
  assumes "\<not> isConnected s" and "length (audioQueue s) \<le> 50000"
  shows "enqueue_all xs s =
     s\<lparr>audioQueue := drop (length (audioQueue s) + length xs - 50000) (audioQueue s @ map fst xs)\<rparr>"
  using assms
proof (induction xs arbitrary: s)
  case Nil
  then show ?case by simp
next
  case (Cons x xs)
  obtain c t1 t2 where x: "x = (c, t1, t2)" by (cases x) auto
  let ?q = "audioQueue s"
  show ?case
  proof (cases "50000 < length ?q + 1")
    case False
    let ?s1 = "s\<lparr>audioQueue := ?q @ [c]\<rparr>"
    have e: "enqueue t1 t2 c s = ?s1"
      using Cons.prems False by (simp add: enqueue_disconnected)
    have "enqueue_all xs ?s1 = ?s1\<lparr>audioQueue :=
        drop (length (audioQueue ?s1) + length xs - 50000) (audioQueue ?s1 @ map fst xs)\<rparr>"
      using Cons.prems False by (intro Cons.IH) simp_all
    then show ?thesis
      by (simp add: x e)
  next
    case True
    then have len: "length ?q = 50000" using Cons.prems(2) by simp
    then obtain a r where q: "?q = a # r" by (cases ?q) auto
    let ?s1 = "s\<lparr>audioQueue := r @ [c]\<rparr>"
    have e: "enqueue t1 t2 c s = ?s1"
      using Cons.prems True by (simp add: enqueue_disconnected q)
    have "enqueue_all xs ?s1 = ?s1\<lparr>audioQueue :=
        drop (length (audioQueue ?s1) + length xs - 50000) (audioQueue ?s1 @ map fst xs)\<rparr>"
      using Cons.prems len q by (intro Cons.IH) simp_all
    moreover have "drop (length ?q + length (x # xs) - 50000) (?q @ map fst (x # xs)) =
        drop (length (r @ [c]) + length xs - 50000) ((r @ [c]) @ map fst xs)"
      using len q by (simp add: x)
    ultimately show ?thesis
      by (simp add: x e)
  qed
qed

text \<open>
  Claim C5. For a session that is not connected and whose queue is within the bound
  of 50000 chunks, after any sequence of \<open>enqueue\<close> calls the session is still not
  connected, the queue holds at most 50000 chunks, and these are the most recently
  enqueued ones (the oldest are dropped). From an empty queue, 50001 calls leave exactly
  50000 chunks: all but the first.
\<close>

theorem enqueue_disconnected_bound:
  assumes "\<not> isConnected s" and "length (audioQueue s) \<le> 50000"
  shows "\<not> isConnected (enqueue_all xs s) \<and>
     length (audioQueue (enqueue_all xs s)) \<le> 50000 \<and>
     audioQueue (enqueue_all xs s) =
       drop (length (audioQueue s) + length xs - 50000) (audioQueue s @ map fst xs) \<and>
     (audioQueue s = [] \<and> length xs = 50001 \<longrightarrow>
        length (audioQueue (enqueue_all xs s)) = 50000 \<and>
        audioQueue (enqueue_all xs s) = tl (map fst xs))"
proof -
  have e: "enqueue_all xs s =
     s\<lparr>audioQueue := drop (length (audioQueue s) + length xs - 50000) (audioQueue s @ map fst xs)\<rparr>"
    using assms by (rule enqueue_all_disconnected)
  have "drop (length xs - 50000) (map fst xs) = tl (map fst xs)" if "length xs = 50001"
    using that by (simp add: drop_Suc)
  then show ?thesis
    using assms by (auto simp: e)
qed

theorem enqueue_disconnected_bound_witness:
  "length (audioQueue (enqueue_all
      (map (\<lambda>k. (replicate 320 (of_nat k), clock0, clock0)) [0..<50001]) camera0)) = 50000 \<and>
   audioQueue (enqueue_all
      (map (\<lambda>k. (replicate 320 (of_nat k), clock0, clock0)) [0..<50001]) camera0) =
     tl (map fst (map (\<lambda>k. (replicate 320 (of_nat k), clock0, clock0)) [0..<50001]))"
proof -
  let ?X = "map (\<lambda>k. (replicate 320 (of_nat k :: byte), clock0, clock0)) [0..<50001]"
  have a: "\<not> isConnected camera0" "length (audioQueue camera0) \<le> 50000"
    "audioQueue camera0 = [] \<and> length ?X = 50001"
    by (simp_all add: camera0_fields)
  from enqueue_disconnected_bound [OF a(1,2), of ?X] a(3) show ?thesis
    by blast
qed

lemma enqueue_all_not_connected:
  assumes "\<not> isConnected s"
  shows "\<exists>q. enqueue_all xs s = s\<lparr>audioQueue := q\<rparr> \<and>
     length q \<le> max (length (audioQueue s)) 50000"
  using assms
proof (induction xs arbitrary: s)
  case Nil
  have "s = s\<lparr>audioQueue := audioQueue s\<rparr>" by simp
  then show ?case by (intro exI [of _ "audioQueue s"]) simp
next
  case (Cons x xs)
  obtain c t1 t2 where x: "x = (c, t1, t2)" by (cases x) auto
  let ?q1 = "if 50000 < length (audioQueue s) + 1 then tl (audioQueue s @ [c])
             else audioQueue s @ [c]"
  have e: "enqueue t1 t2 c s = s\<lparr>audioQueue := ?q1\<rparr>"
    using Cons.prems by (rule enqueue_disconnected)
  have l1: "length ?q1 \<le> max (length (audioQueue s)) 50000"
    by simp
  obtain q where q: "enqueue_all xs (s\<lparr>audioQueue := ?q1\<rparr>) = s\<lparr>audioQueue := ?q1\<rparr>\<lparr>audioQueue := q\<rparr>"
    and l: "length q \<le> max (length (audioQueue (s\<lparr>audioQueue := ?q1\<rparr>))) 50000"
    using Cons.IH [of "s\<lparr>audioQueue := ?q1\<rparr>"] Cons.prems by auto
  have "length q \<le> max (length (audioQueue s)) 50000"
    using l l1 by simp
  then show ?case
    using q by (intro exI [of _ q]) (simp add: x e)
qed

text \<open>
  Claim C6, as amended. A socket error or close event marks the session not connected and
  changes nothing else. From then on \<open>enqueue\<close> never sends: nothing is written to the
  socket, \<open>totalBytesSent\<close> and the pending callbacks stay as they are; each call appends
  its chunk and drops the oldest one once the queue exceeds 50000 chunks, so the queue
  stays bounded. The queue is cleared by the timeout event and by a drain cycle that
  finds the socket destroyed.
\<close>

theorem enqueue_after_close:
  "on_error s = s\<lparr>isConnected := False\<rparr> \<and> on_close s = s\<lparr>isConnected := False\<rparr> \<and>
   enqueue t1 t2 c (on_close s) =
     (on_close s)\<lparr>audioQueue :=
        (if 50000 < length (audioQueue s) + 1 then tl (audioQueue s @ [c])
         else audioQueue s @ [c])\<rparr> \<and>
   \<not> isConnected (enqueue_all xs (on_close s)) \<and>
   written (socket (enqueue_all xs (on_close s))) = written (socket s) \<and>
   totalBytesSent (enqueue_all xs (on_close s)) = totalBytesSent s \<and>
   timers (enqueue_all xs (on_close s)) = timers s \<and>
   length (audioQueue (enqueue_all xs (on_close s))) \<le> max (length (audioQueue s)) 50000 \<and>
   (destroyed (socket s) \<longrightarrow>
      audioQueue (processQueue u1 u2 (enqueue_all xs (on_close s))) = []) \<and>
   audioQueue (on_timeout s) = []"
proof -
  have nc: "\<not> isConnected (on_close s)"
    by (simp add: on_close_def)
  obtain q where q: "enqueue_all xs (on_close s) = (on_close s)\<lparr>audioQueue := q\<rparr>"
    and l: "length q \<le> max (length (audioQueue (on_close s))) 50000"
    using enqueue_all_not_connected [OF nc, of xs] by auto
  have 1: "on_error s = s\<lparr>isConnected := False\<rparr>" "on_close s = s\<lparr>isConnected := False\<rparr>"
    by (simp_all add: on_error_def on_close_def)
  have 2: "enqueue t1 t2 c (on_close s) =
     (on_close s)\<lparr>audioQueue :=
        (if 50000 < length (audioQueue s) + 1 then tl (audioQueue s @ [c])
         else audioQueue s @ [c])\<rparr>"
    using enqueue_disconnected [OF nc, of t1 t2 c] by (simp add: on_close_def)
  have 3: "\<not> isConnected (enqueue_all xs (on_close s))"
    "written (socket (enqueue_all xs (on_close s))) = written (socket s)"
    "totalBytesSent (enqueue_all xs (on_close s)) = totalBytesSent s"
    "timers (enqueue_all xs (on_close s)) = timers s"
    unfolding q by (simp_all add: on_close_def)
  have 4: "length (audioQueue (enqueue_all xs (on_close s))) \<le> max (length (audioQueue s)) 50000"
    unfolding q using l by (simp add: on_close_def)
  have 5: "destroyed (socket s) \<longrightarrow>
      audioQueue (processQueue u1 u2 (enqueue_all xs (on_close s))) = []"
    unfolding q by (simp add: processQueue_def on_close_def)
  have 6: "audioQueue (on_timeout s) = []"
    by (simp add: on_timeout_def)
  show ?thesis
    using 1 2 3 4 5 6 by (intro conjI)
qed

theorem enqueue_after_close_witness:
  "\<not> isConnected (enqueue_all [(chunk0, clock0, clock0)] (on_close streaming0)) \<and>
   written (socket (enqueue_all [(chunk0, clock0, clock0)] (on_close streaming0))) =
     written (socket streaming0) \<and>
   audioQueue (processQueue clock0 clock0 (enqueue_all [(chunk0, clock0, clock0)]
     (on_close (streaming0\<lparr>socket := socket_destroy (socket streaming0)\<rparr>)))) = []"
proof -
  have d: "destroyed (socket (streaming0\<lparr>socket := socket_destroy (socket streaming0)\<rparr>))"
    by (simp add: socket_destroy_def)
  show ?thesis
    using enqueue_after_close [of streaming0 clock0 clock0 chunk0 "[(chunk0, clock0, clock0)]"]
      enqueue_after_close [of "streaming0\<lparr>socket := socket_destroy (socket streaming0)\<rparr>"
        clock0 clock0 chunk0 "[(chunk0, clock0, clock0)]" clock0 clock0] d
    by blast
qed

text \<open>
  The claim as stated fails: the close and error handlers keep the queue, and an
  \<open>enqueue\<close> after the close event makes the queue grow.
\<close>

theorem enqueue_after_close_counterexample:
  "audioQueue (on_close (streaming0\<lparr>audioQueue := [chunk0]\<rparr>)) = [chunk0] \<and>
   audioQueue (on_error (streaming0\<lparr>audioQueue := [chunk0]\<rparr>)) = [chunk0] \<and>
   audioQueue (enqueue clock0 clock0 chunk0 (on_close (streaming0\<lparr>audioQueue := [chunk0]\<rparr>))) =
     [chunk0, chunk0] \<and>
   audioQueue (on_close streaming0) = [] \<and>
   audioQueue (enqueue clock0 clock0 chunk0 (on_close streaming0)) = [chunk0]"
  by (simp add: on_close_def on_error_def enqueue_disconnected streaming0_fields)

section \<open>End-to-end properties\<close>

lemma sent_frames_map_Bytes: "sent_frames (map (\<lambda>c. Bytes (f c)) cs) = map f cs"
  by (induction cs) auto

lemma sent_frames_replicate_Bytes: "sent_frames (replicate n (Bytes b)) = replicate n b"
  by (induction n) auto




text \<open>
  Claim C10. In every reachable state of every client, \<open>totalBytesSent\<close> is
  \<open>CHUNK_SIZE\<close> times the number of audio frames handed to the socket, hence a multiple
  of \<open>CHUNK_SIZE\<close>, while each of those frames has 336 bytes on the wire; a frame send
  on a live socket hands over 336 bytes and adds exactly the 320 payload bytes to
  \<open>totalBytesSent\<close>; and the throttle test computes the audio time from the payload
  bytes alone.
\<close>

theorem totalBytesSent_counts_payload:
  assumes "clients \<in> reachable prt rate ips" and "s \<in> set clients"
  shows "CHUNK_SIZE dvd totalBytesSent s \<and>
     totalBytesSent s = CHUNK_SIZE * length (sent_frames (written (socket s))) \<and>
     (\<forall>f\<in>set (sent_frames (written (socket s))). length f = 4 + 12 + CHUNK_SIZE) \<and>
     length (concat (sent_frames (written (socket s)))) =
       336 * length (sent_frames (written (socket s))) \<and>
     (\<forall>c\<in>set (audioQueue s). length c = CHUNK_SIZE) \<and>
     (\<forall>payload. length payload = CHUNK_SIZE \<and> \<not> destroyed (socket s) \<and>
          \<not> writeThrows (socket s) \<longrightarrow>
        (\<exists>frame. written (socket (sendRtspFrame (Some payload) s)) =
             written (socket s) @ [Bytes frame] \<and> length frame = 336) \<and>
        totalBytesSent (sendRtspFrame (Some payload) s) = totalBytesSent s + 320) \<and>
     (\<forall>t2. tooFarAhead t2 s =
        js_gt (audioTimeSentAdjusted
                (CHUNK_SIZE * length (sent_frames (written (socket s)))) (sampleRate s * 2))
          (Fin (of_int (t2 - startTime s + MAX_BUFFER_AHEAD_MS))))"
proof -
  have acc: "accounted s"
    using reachable_accounted [OF assms(1)] assms(2) by simp
  then have t: "totalBytesSent s = CHUNK_SIZE * length (sent_frames (written (socket s)))"
    and f: "\<forall>f\<in>set (sent_frames (written (socket s))). length f = 4 + 12 + CHUNK_SIZE"
    and q: "\<forall>c\<in>set (audioQueue s). length c = CHUNK_SIZE"
    by (simp_all add: accounted_def)
  have d: "CHUNK_SIZE dvd totalBytesSent s"
    unfolding t by simp
  have "sum_list (map length (sent_frames (written (socket s)))) =
      length (sent_frames (written (socket s))) * (4 + 12 + CHUNK_SIZE)"
    using f by (rule sum_list_lengths)
  then have w: "length (concat (sent_frames (written (socket s)))) =
      336 * length (sent_frames (written (socket s)))"
    by (simp add: length_concat CHUNK_SIZE_def)
  have p: "(\<exists>frame. written (socket (sendRtspFrame (Some payload) s)) =
             written (socket s) @ [Bytes frame] \<and> length frame = 336) \<and>
        totalBytesSent (sendRtspFrame (Some payload) s) = totalBytesSent s + 320"
    if "length payload = CHUNK_SIZE" "\<not> destroyed (socket s)" "\<not> writeThrows (socket s)"
    for payload
    using that by (simp add: sendRtspFrame_sent rtsp_frame_length CHUNK_SIZE_def)
  have a: "tooFarAhead t2 s =
        js_gt (audioTimeSentAdjusted
                (CHUNK_SIZE * length (sent_frames (written (socket s)))) (sampleRate s * 2))
          (Fin (of_int (t2 - startTime s + MAX_BUFFER_AHEAD_MS)))" for t2
    by (simp add: tooFarAhead_def Let_def t)
  show ?thesis
    using d t f w q p a by blast
qed

theorem totalBytesSent_counts_payload_witness:
  "totalBytesSent (hd (stdout_on_data (\<lambda>i j. (clock0, clock0))
      (concat (replicate 51 chunk0)) [streaming0])) = 16320 \<and>
   length (sent_frames (written (socket (hd (stdout_on_data (\<lambda>i j. (clock0, clock0))
      (concat (replicate 51 chunk0)) [streaming0]))))) = 51 \<and>
   CHUNK_SIZE dvd totalBytesSent (hd (stdout_on_data (\<lambda>i j. (clock0, clock0))
      (concat (replicate 51 chunk0)) [streaming0]))"
proof -
  let ?clk = "\<lambda>(i::nat) (j::nat). (clock0, clock0)"
  let ?xs = "replicate 50 (chunk0, clock0, clock0) @ (chunk0, clock0, clock0) # []"
  let ?r = "stdout_on_data ?clk (concat (replicate 51 chunk0)) [streaming0]"
  have r0: "[camera0] \<in> reachable 554 8000 [''192.168.1.100'']"
    using reachable.start [of 554 8000 "[''192.168.1.100'']"] by (simp add: camera0_def)
  have "[camera0][0 := streaming0] \<in> reachable 554 8000 [''192.168.1.100'']"
    using r0 by (rule reachable.client_event [where ev = "SocketData clock0 clock0 accepted0"])
      (simp_all add: streaming0_def)
  then have r1: "[streaming0] \<in> reachable 554 8000 [''192.168.1.100'']"
    by simp
  have r2: "?r \<in> reachable 554 8000 [''192.168.1.100'']"
    using r1 by (rule reachable.stdout_data)
  have "fanout_from ?clk (length ([]::buffer)) ([] @ concat (map fst ?xs)) [streaming0] =
      [enqueue_all ?xs streaming0]"
    by (intro fanout_one_client) (auto simp: chunk0_length nth_append nth_Cons')
  moreover have "replicate (50 + 1) chunk0 = replicate 50 chunk0 @ replicate 1 chunk0"
    by (rule replicate_add)
  then have "concat (map fst ?xs) = concat (replicate 51 chunk0)"
    by simp
  ultimately have r: "?r = [enqueue_all ?xs streaming0]"
    by (simp add: stdout_on_data_def)
  have e: "enqueue_all ?xs streaming0 =
     streaming0\<lparr>audioQueue := [],
       socket := (socket streaming0)\<lparr>written := written (socket streaming0) @
         map (\<lambda>c. Bytes (rtsp_frame [0x24, 0x02, 0x4C, 0x01] c))
           (map fst (replicate 50 (chunk0, clock0, clock0)) @ [chunk0])\<rparr>,
       totalBytesSent := 51 * CHUNK_SIZE,
       startTime := clock0,
       isThrottling := True,
       timers := timers streaming0 @ [ProcessQueueImmediate]\<rparr>"
    using enqueue_all_burst [where s = streaming0 and pre = "replicate 50 (chunk0, clock0, clock0)"
        and c = chunk0 and ?t1.0 = clock0 and ?t2.0 = clock0 and post = "[]"]
    by (simp add: streaming0_fields burstPackets_8000 chunk0_length)
  have m: "hd ?r \<in> set ?r"
    by (simp add: r)
  have n: "length (sent_frames (written (socket (hd ?r)))) = 51"
    by (simp add: r e streaming0_fields sent_frames_append sent_frames_replicate_Bytes)
  from totalBytesSent_counts_payload [OF r2 m] n show ?thesis
    by (simp add: CHUNK_SIZE_def)
qed

section \<open>Properties of the single-camera script\<close>

text \<open>The pacer of \<open>intercom.js\<close> builds the same frames, waits below the burst size,
  throttles in the same way, and in a cold-start cycle on more than 50 chunks sends the
  burst of 50 chunks and one more chunk, as the pacer of \<open>CameraClient\<close> does.\<close>

lemma sendRtspFrame_single_sent:
  assumes "\<not> destroyed (client s)" and "\<not> writeThrows (client s)"
  shows "sendRtspFrame_single (Some c) s =
     Inr (s\<lparr>client := (client s)\<lparr>written := written (client s) @
             [Bytes (rtsp_frame [0x24, 0x02, 0x4C, 0x01] c)]\<rparr>,
           totalBytesSent_single := totalBytesSent_single s + length c\<rparr>)"
  using assms by (simp add: sendRtspFrame_single_def rtsp_header_bytes socket_write_def)

lemma burst_single_sends:
  assumes "n \<le> length (audioQueue_single s)"
    and "\<not> destroyed (client s)" and "\<not> writeThrows (client s)"
  shows "burst_single n s =
     Inr (s\<lparr>audioQueue_single := drop n (audioQueue_single s),
       client := (client s)\<lparr>written := written (client s) @
         map (\<lambda>c. Bytes (rtsp_frame [0x24, 0x02, 0x4C, 0x01] c)) (take n (audioQueue_single s))\<rparr>,
       totalBytesSent_single := totalBytesSent_single s +
         sum_list (map length (take n (audioQueue_single s)))\<rparr>)"
  using assms
proof (induction n arbitrary: s)
  case 0
  then show ?case by simp
next
  case (Suc n)
  then obtain c r where q: "audioQueue_single s = c # r"
    by (cases "audioQueue_single s") auto
  let ?s1 = "s\<lparr>audioQueue_single := r,
       client := (client s)\<lparr>written := written (client s) @
         [Bytes (rtsp_frame [0x24, 0x02, 0x4C, 0x01] c)]\<rparr>,
       totalBytesSent_single := totalBytesSent_single s + length c\<rparr>"
  have s1: "sendRtspFrame_single (Some c) (s\<lparr>audioQueue_single := r\<rparr>) = Inr ?s1"
    using Suc.prems by (simp add: sendRtspFrame_single_sent)
  have "burst_single (Suc n) s = burst_single n ?s1"
    by (simp add: q shift_Cons s1)
  also have "\<dots> = Inr (?s1\<lparr>audioQueue_single := drop n (audioQueue_single ?s1),
       client := (client ?s1)\<lparr>written := written (client ?s1) @
         map (\<lambda>c. Bytes (rtsp_frame [0x24, 0x02, 0x4C, 0x01] c)) (take n (audioQueue_single ?s1))\<rparr>,
       totalBytesSent_single := totalBytesSent_single ?s1 +
         sum_list (map length (take n (audioQueue_single ?s1)))\<rparr>)"
    using Suc.prems by (intro Suc.IH) (simp_all add: q)
  also have "\<dots> = Inr (s\<lparr>audioQueue_single := drop (Suc n) (audioQueue_single s),
       client := (client s)\<lparr>written := written (client s) @
         map (\<lambda>c. Bytes (rtsp_frame [0x24, 0x02, 0x4C, 0x01] c)) (take (Suc n) (audioQueue_single s))\<rparr>,
       totalBytesSent_single := totalBytesSent_single s +
         sum_list (map length (take (Suc n) (audioQueue_single s)))\<rparr>)"
    by (simp add: q)
  finally show ?case .
qed

lemma SPEED_MULTIPLIER_single_value:
  "SPEED_MULTIPLIER_single = Fin (5854679515581645 / 4503599627370496)"
  unfolding SPEED_MULTIPLIER_single_def by code_simp

lemma adjusted_single_upper:
  assumes "0 < bps" and "int sent \<le> 2 * bps"
  shows "\<exists>r. js_div (js_mul (js_div (Fin (of_nat sent)) (Fin (of_int bps))) (Fin 1000))
               SPEED_MULTIPLIER_single = Fin r \<and> r \<le> 2000"
proof -
  have pos: "(0::rat) < of_int bps" using assms(1) by simp
  have "(of_int (int sent) :: rat) \<le> of_int (2 * bps)"
    using assms(2) by (simp only: of_int_le_iff)
  then have "(of_nat sent :: rat) \<le> 2 * of_int bps" by simp
  then have u1: "of_nat sent / of_int bps \<le> (of_int 2 :: rat)"
    using pos by (simp add: pos_divide_le_eq)
  have l1: "(0::rat) \<le> of_nat sent / of_int bps"
    using pos by simp
  obtain r1 where r1: "round_double (of_nat sent / of_int bps) = Fin r1" "0 \<le> r1" "r1 \<le> of_int 2"
    using round_double_upper [OF l1 u1] by auto
  have "0 \<le> r1 * 1000" "r1 * 1000 \<le> of_int 2000"
    using r1(2,3) by simp_all
  then obtain r2 where r2: "round_double (r1 * 1000) = Fin r2" "0 \<le> r2" "r2 \<le> of_int 2000"
    using round_double_upper [of "r1 * 1000" 2000] by auto
  let ?x = "r2 * 4503599627370496 / 5854679515581645"
  have "?x \<le> r2"
    using r2(2) by simp
  then have "0 \<le> ?x" "?x \<le> of_int 2000"
    using r2(2,3) by simp_all
  then obtain r3 where r3: "round_double ?x = Fin r3" "r3 \<le> of_int 2000"
    using round_double_upper [of ?x 2000] by auto
  have "js_div (js_mul (js_div (Fin (of_nat sent)) (Fin (of_int bps))) (Fin 1000))
               SPEED_MULTIPLIER_single = Fin r3"
    using pos by (simp add: SPEED_MULTIPLIER_single_value r1 r2 r3)
  then show ?thesis using r3(2) by auto
qed

lemma not_ahead_single:
  assumes "8000 \<le> config_rate s" and "startTime_single s \<le> t2"
    and "totalBytesSent_single s \<le> 32000"
  shows "\<not> tooFarAhead_single t2 s"
proof -
  have "0 < config_rate s * 2" "int (totalBytesSent_single s) \<le> 2 * (config_rate s * 2)"
    using assms(1,3) by simp_all
  from adjusted_single_upper [OF this]
  obtain r where r: "js_div (js_mul (js_div (Fin (of_nat (totalBytesSent_single s)))
                 (Fin (of_int (config_rate s * 2)))) (Fin 1000))
               SPEED_MULTIPLIER_single = Fin r"
    and u: "r \<le> 2000"
    by blast
  have "(of_int 2000 :: rat) \<le> of_int (t2 - startTime_single s + 2000)"
    using assms(2) by simp
  then have "r \<le> of_int (t2 - startTime_single s + 2000)"
    using u by simp
  then show ?thesis
    unfolding tooFarAhead_single_def Let_def r
    by (simp add: MAX_BUFFER_AHEAD_MS_def not_less)
qed

text \<open>Here too the test follows the doubles: 403 bytes at 50 Hz are 3100 ms of audio after
  the division by 1.3, the rounded quotient is just above 3100, and the pacer throttles
  at 1100 ms elapsed.\<close>

lemma tooFarAhead_single_rounding:
  assumes "config_rate s = 50" and "totalBytesSent_single s = 403"
    and "t2 - startTime_single s = 1100"
  shows "tooFarAhead_single t2 s"
proof -
  have "js_gt (js_div (js_mul (js_div (Fin 403) (Fin 100)) (Fin 1000)) SPEED_MULTIPLIER_single)
      (Fin 3100)"
    by code_simp
  then show ?thesis
    by (simp add: tooFarAhead_single_def MAX_BUFFER_AHEAD_MS_def Let_def assms
        del: js_div.simps(1) js_mul.simps(1))
qed

lemma pace_single_sends:
  assumes "\<not> tooFarAhead_single t2 s" and "audioQueue_single s = c # r"
    and "\<not> destroyed (client s)" and "\<not> writeThrows (client s)"
  shows "pace_single t2 s =
     Inr (s\<lparr>audioQueue_single := r,
       client := (client s)\<lparr>written := written (client s) @
         [Bytes (rtsp_frame [0x24, 0x02, 0x4C, 0x01] c)]\<rparr>,
       totalBytesSent_single := totalBytesSent_single s + length c,
       timers_single := timers_single s @ [ProcessQueueImmediate]\<rparr>)"
  using assms by (simp add: pace_single_def shift_Cons sendRtspFrame_single_sent)

lemma processQueue_single_cold_wait:
  assumes "startTime_single s = 0"
    and "int (length (audioQueue_single s)) \<le> burstPackets (config_rate s)"
  shows "processQueue_single t1 t2 s = Inr (s\<lparr>isThrottling_single := False\<rparr>)"
  using assms by (simp add: processQueue_single_def Let_def)

lemma processQueue_single_throttled:
  assumes "audioQueue_single s \<noteq> []" and "startTime_single s \<noteq> 0"
    and "tooFarAhead_single t2 (s\<lparr>isThrottling_single := True\<rparr>)"
  shows "processQueue_single t1 t2 s =
     Inr (s\<lparr>isThrottling_single := True,
            timers_single := timers_single s @ [ProcessQueueTimeout 10]\<rparr>)"
  using assms by (simp add: processQueue_single_def pace_single_def Let_def)

lemma processQueue_single_cold_burst:
  assumes live: "\<not> destroyed (client s)" "\<not> writeThrows (client s)"
    and cold: "startTime_single s = 0" "totalBytesSent_single s = 0"
    and rate: "burstPackets (config_rate s) = 50"
    and len: "50 < length (audioQueue_single s)"
    and chunks: "\<forall>c\<in>set (audioQueue_single s). length c = CHUNK_SIZE"
    and clock: "t1 \<le> t2"
  shows "processQueue_single t1 t2 s =
     Inr (s\<lparr>audioQueue_single := drop 51 (audioQueue_single s),
       client := (client s)\<lparr>written := written (client s) @
         map (\<lambda>c. Bytes (rtsp_frame [0x24, 0x02, 0x4C, 0x01] c)) (take 51 (audioQueue_single s))\<rparr>,
       totalBytesSent_single := 51 * CHUNK_SIZE,
       startTime_single := t1,
       isThrottling_single := True,
       timers_single := timers_single s @ [ProcessQueueImmediate]\<rparr>)"
proof -
  let ?F = "\<lambda>c. Bytes (rtsp_frame [0x24, 0x02, 0x4C, 0x01] c)"
  let ?q = "audioQueue_single s"
  let ?s0 = "s\<lparr>isThrottling_single := True\<rparr>"
  have ne: "?q \<noteq> []" using len by auto
  have t50: "\<forall>c\<in>set (take 50 ?q). length c = CHUNK_SIZE"
    using chunks by (auto dest: in_set_takeD)
  have sum50: "sum_list (map length (take 50 ?q)) = 16000"
    using sum_list_lengths [OF t50] len by (simp add: CHUNK_SIZE_def)
  let ?b = "?s0\<lparr>audioQueue_single := drop 50 ?q,
       client := (client s)\<lparr>written := written (client s) @ map ?F (take 50 ?q)\<rparr>,
       totalBytesSent_single := 16000\<rparr>"
  have b: "burst_single 50 ?s0 = Inr ?b"
    using burst_single_sends [of 50 ?s0] live len cold by (simp add: sum50)
  obtain c r where d50: "drop 50 ?q = c # r"
    using len by (cases "drop 50 ?q") auto
  have c320: "length c = CHUNK_SIZE"
  proof -
    have "c \<in> set (drop 50 ?q)" by (simp add: d50)
    then have "c \<in> set ?q" by (rule in_set_dropD)
    then show ?thesis using chunks by simp
  qed
  have "drop 1 (drop 50 ?q) = drop 51 ?q"
    by simp
  then have r51: "r = drop 51 ?q"
    by (simp add: d50)
  have "take (50 + 1) ?q = take 50 ?q @ take 1 (drop 50 ?q)"
    by (rule take_add)
  then have t51: "take 51 ?q = take 50 ?q @ [c]"
    by (simp add: d50)
  have rate8000: "8000 \<le> config_rate s"
    using rate by (simp add: burstPackets_50)
  let ?s1 = "?b\<lparr>startTime_single := t1\<rparr>"
  have na: "\<not> tooFarAhead_single t2 ?s1"
    using rate8000 clock by (intro not_ahead_single) simp_all
  have "processQueue_single t1 t2 s = pace_single t2 ?s1"
    using cold rate len ne by (simp add: processQueue_single_def Let_def b)
  also have "\<dots> = Inr (?s1\<lparr>audioQueue_single := r,
       client := (client ?s1)\<lparr>written := written (client ?s1) @ [?F c]\<rparr>,
       totalBytesSent_single := totalBytesSent_single ?s1 + length c,
       timers_single := timers_single ?s1 @ [ProcessQueueImmediate]\<rparr>)"
    using na d50 live by (intro pace_single_sends) simp_all
  also have "\<dots> = Inr (s\<lparr>audioQueue_single := drop 51 ?q,
       client := (client s)\<lparr>written := written (client s) @ map ?F (take 51 ?q)\<rparr>,
       totalBytesSent_single := 51 * CHUNK_SIZE,
       startTime_single := t1,
       isThrottling_single := True,
       timers_single := timers_single s @ [ProcessQueueImmediate]\<rparr>)"
    by (simp add: r51 t51 c320) (simp add: CHUNK_SIZE_def)
  finally show ?thesis .
qed

end
